theory Spec2Isabelle
  imports Main "HOL-Library.Word"
begin

unbundle bit_operations_syntax

section \<open>Data model of native\_midi\_linux\_alsa.c\<close>

text \<open>
  The playback state stored in the atomic field \<open>playerstate\<close>. The enum's integer values
  are 0 to 3 in declaration order; the source compares them as integers, as in
  \<open>SDL_AtomicGet(...) > NATIVE_MIDI_STOPPED\<close>, which \<open>state_val\<close> makes explicit.
\<close>

datatype native_midi_state =
  NATIVE_MIDI_STOPPED | NATIVE_MIDI_STARTING | NATIVE_MIDI_PLAYING | NATIVE_MIDI_PAUSED

fun state_val :: "native_midi_state \<Rightarrow> int" where
  "state_val NATIVE_MIDI_STOPPED = 0"
| "state_val NATIVE_MIDI_STARTING = 1"
| "state_val NATIVE_MIDI_PLAYING = 2"
| "state_val NATIVE_MIDI_PAUSED = 3"

text \<open>The opcodes of \<open>native_midi_thread_cmd\<close> (the enum starts at 1).\<close>

definition THREAD_CMD_QUIT :: "8 word" where "THREAD_CMD_QUIT = 1"
definition THREAD_CMD_PAUSE :: "8 word" where "THREAD_CMD_PAUSE = 2"
definition THREAD_CMD_RESUME :: "8 word" where "THREAD_CMD_RESUME = 3"
definition THREAD_CMD_SETVOL :: "8 word" where "THREAD_CMD_SETVOL = 4"

text \<open>
  A command packet is \<open>CMD_PKT_LEN = 2\<close> bytes: opcode and operand. The three constant
  packets are initialised with the opcode only, so their operand byte is 0.
\<close>

type_synonym packet = "8 word \<times> 8 word"

definition CMD_PKT_LEN :: int where "CMD_PKT_LEN = 2"

definition pkt_thread_cmd_quit :: packet where "pkt_thread_cmd_quit = (THREAD_CMD_QUIT, 0)"
definition pkt_thread_cmd_pause :: packet where "pkt_thread_cmd_pause = (THREAD_CMD_PAUSE, 0)"
definition pkt_thread_cmd_resume :: packet where "pkt_thread_cmd_resume = (THREAD_CMD_RESUME, 0)"

definition MIDI_SMF_META_EVENT :: "8 word" where "MIDI_SMF_META_EVENT = 0xFF"
definition MIDI_SMF_META_TEMPO :: "8 word" where "MIDI_SMF_META_TEMPO = 0x51"

text \<open>
  Modelled from the spec: the event record of the event source (its C declaration lives in
  the header \<open>native_midi_common.h\<close>, which is not among the sources). Section 3 of the
  specification gives the fields: a tick, a status byte, two data bytes, the extra bytes
  with their count, and the link to the following event. The link is the list structure:
  an event list is a \<open>MIDIEvent list\<close>, the cursor \<open>event\<close> of the player is the
  remaining suffix, and \<open>[]\<close> is the \<open>NULL\<close> pointer.
\<close>

record MIDIEvent =
  time :: "32 word"
  status :: "8 word"
  data0 :: "8 word"
  data1 :: "8 word"
  extraLen :: "32 word"
  extraData :: "8 word list"

text \<open>
  Modelled from the spec: the address pair and the scheduled event of the external
  sequencer transport (its library headers are not part of the repository). Only what the
  source assigns is kept: the payload chosen by the constructor macro, the source port, the
  destination address and the scheduling (a tick on a queue, or direct delivery that
  bypasses the queue).
\<close>

record snd_seq_addr =
  client :: int
  port :: int

datatype ev_payload =
    EV_NONE
  | EV_NOTEON "8 word" "8 word" "8 word"
  | EV_NOTEOFF "8 word" "8 word" "8 word"
  | EV_CONTROLLER "8 word" "8 word" "8 word"
  | EV_KEYPRESS "8 word" "8 word" "8 word"
  | EV_PGMCHANGE "8 word" "8 word"
  | EV_PITCHBEND "8 word" int
  | EV_TEMPO int "32 word"
  | EV_ECHO
  | EV_SETPOS_TICK int "32 word"
  | EV_SYSEX "8 word list"
  | EV_STOP int
  | EV_CONTINUE int

datatype ev_schedule = SCHED_UNSET | SCHED_TICK int "32 word" | SCHED_DIRECT

record snd_seq_event =
  ev_data :: ev_payload
  ev_source :: int
  ev_dest :: snd_seq_addr
  ev_sched :: ev_schedule

text \<open>
  Modelled from the spec: the transport's event constructors. Each one assigns the fields
  named in its call. The queue-control constructors (\<open>snd_seq_ev_set_queue_tempo\<close>,
  \<open>snd_seq_ev_set_queue_pos_tick\<close>, \<open>snd_seq_ev_set_queue_control\<close>) address the
  event to the transport's own timer port instead of a MIDI port, which is what the source
  comment "This changes the event destination, so we have to restore it in the next
  iteration" and section 4.3 of the specification describe.
\<close>

definition system_timer :: snd_seq_addr where
  "system_timer = \<lparr>client = 0, port = 0\<rparr>"

definition snd_seq_ev_clear :: snd_seq_event where
  "snd_seq_ev_clear =
     \<lparr>ev_data = EV_NONE, ev_source = 0, ev_dest = \<lparr>client = 0, port = 0\<rparr>, ev_sched = SCHED_UNSET\<rparr>"

definition snd_seq_ev_set_source :: "int \<Rightarrow> snd_seq_event \<Rightarrow> snd_seq_event" where
  "snd_seq_ev_set_source p ev = ev\<lparr>ev_source := p\<rparr>"

definition snd_seq_ev_set_dest :: "snd_seq_addr \<Rightarrow> snd_seq_event \<Rightarrow> snd_seq_event" where
  "snd_seq_ev_set_dest a ev = ev\<lparr>ev_dest := a\<rparr>"

definition snd_seq_ev_schedule_tick :: "int \<Rightarrow> 32 word \<Rightarrow> snd_seq_event \<Rightarrow> snd_seq_event" where
  "snd_seq_ev_schedule_tick q t ev = ev\<lparr>ev_sched := SCHED_TICK q t\<rparr>"

definition snd_seq_ev_set_direct :: "snd_seq_event \<Rightarrow> snd_seq_event" where
  "snd_seq_ev_set_direct ev = ev\<lparr>ev_sched := SCHED_DIRECT\<rparr>"

definition snd_seq_ev_set_noteon :: "8 word \<Rightarrow> 8 word \<Rightarrow> 8 word \<Rightarrow> snd_seq_event \<Rightarrow> snd_seq_event" where
  "snd_seq_ev_set_noteon ch k v ev = ev\<lparr>ev_data := EV_NOTEON ch k v\<rparr>"

definition snd_seq_ev_set_noteoff :: "8 word \<Rightarrow> 8 word \<Rightarrow> 8 word \<Rightarrow> snd_seq_event \<Rightarrow> snd_seq_event" where
  "snd_seq_ev_set_noteoff ch k v ev = ev\<lparr>ev_data := EV_NOTEOFF ch k v\<rparr>"

definition snd_seq_ev_set_controller :: "8 word \<Rightarrow> 8 word \<Rightarrow> 8 word \<Rightarrow> snd_seq_event \<Rightarrow> snd_seq_event" where
  "snd_seq_ev_set_controller ch c v ev = ev\<lparr>ev_data := EV_CONTROLLER ch c v\<rparr>"

definition snd_seq_ev_set_keypress :: "8 word \<Rightarrow> 8 word \<Rightarrow> 8 word \<Rightarrow> snd_seq_event \<Rightarrow> snd_seq_event" where
  "snd_seq_ev_set_keypress ch k v ev = ev\<lparr>ev_data := EV_KEYPRESS ch k v\<rparr>"

definition snd_seq_ev_set_pgmchange :: "8 word \<Rightarrow> 8 word \<Rightarrow> snd_seq_event \<Rightarrow> snd_seq_event" where
  "snd_seq_ev_set_pgmchange ch v ev = ev\<lparr>ev_data := EV_PGMCHANGE ch v\<rparr>"

definition snd_seq_ev_set_pitchbend :: "8 word \<Rightarrow> int \<Rightarrow> snd_seq_event \<Rightarrow> snd_seq_event" where
  "snd_seq_ev_set_pitchbend ch v ev = ev\<lparr>ev_data := EV_PITCHBEND ch v\<rparr>"

definition snd_seq_ev_set_queue_tempo :: "int \<Rightarrow> 32 word \<Rightarrow> snd_seq_event \<Rightarrow> snd_seq_event" where
  "snd_seq_ev_set_queue_tempo q t ev = ev\<lparr>ev_data := EV_TEMPO q t, ev_dest := system_timer\<rparr>"

definition snd_seq_ev_set_queue_pos_tick :: "int \<Rightarrow> 32 word \<Rightarrow> snd_seq_event \<Rightarrow> snd_seq_event" where
  "snd_seq_ev_set_queue_pos_tick q t ev = ev\<lparr>ev_data := EV_SETPOS_TICK q t, ev_dest := system_timer\<rparr>"

definition snd_seq_ev_set_queue_control :: "ev_payload \<Rightarrow> snd_seq_event \<Rightarrow> snd_seq_event" where
  "snd_seq_ev_set_queue_control c ev = ev\<lparr>ev_data := c, ev_dest := system_timer\<rparr>"

definition snd_seq_ev_set_sysex :: "8 word list \<Rightarrow> snd_seq_event \<Rightarrow> snd_seq_event" where
  "snd_seq_ev_set_sysex bs ev = ev\<lparr>ev_data := EV_SYSEX bs\<rparr>"

text \<open>
  Modelled from the spec: the MIDI status nibbles and controller numbers of the transport
  library's \<open>asoundef.h\<close> (standard MIDI values), and the \<open>EAGAIN\<close> code of the platform.
\<close>

definition MIDI_CMD_NOTE_OFF :: "8 word" where "MIDI_CMD_NOTE_OFF = 0x80"
definition MIDI_CMD_NOTE_ON :: "8 word" where "MIDI_CMD_NOTE_ON = 0x90"
definition MIDI_CMD_NOTE_PRESSURE :: "8 word" where "MIDI_CMD_NOTE_PRESSURE = 0xA0"
definition MIDI_CMD_CONTROL :: "8 word" where "MIDI_CMD_CONTROL = 0xB0"
definition MIDI_CMD_PGM_CHANGE :: "8 word" where "MIDI_CMD_PGM_CHANGE = 0xC0"
definition MIDI_CMD_BENDER :: "8 word" where "MIDI_CMD_BENDER = 0xE0"
definition MIDI_CMD_COMMON_SYSEX :: "8 word" where "MIDI_CMD_COMMON_SYSEX = 0xF0"
definition MIDI_CMD_COMMON_SYSEX_END :: "8 word" where "MIDI_CMD_COMMON_SYSEX_END = 0xF7"
definition MIDI_CTL_SUSTAIN :: "8 word" where "MIDI_CTL_SUSTAIN = 0x40"
definition MIDI_CTL_ALL_SOUNDS_OFF :: "8 word" where "MIDI_CTL_ALL_SOUNDS_OFF = 0x78"
definition MIDI_CTL_RESET_CONTROLLERS :: "8 word" where "MIDI_CTL_RESET_CONTROLLERS = 0x79"
definition MIDI_CTL_ALL_NOTES_OFF :: "8 word" where "MIDI_CTL_ALL_NOTES_OFF = 0x7B"
definition MIDI_CHANNELS :: nat where "MIDI_CHANNELS = 16"
definition EAGAIN :: int where "EAGAIN = 11"

text \<open>
  The song (\<open>struct _NativeMidiSong\<close>). \<open>playerthread\<close> is the thread handle (\<open>None\<close> is
  \<open>NULL\<close>). The sequencer handle \<open>seq\<close> is represented by the client id the transport gave
  to the connection (what \<open>snd_seq_client_id\<close> returns for it); the two socket descriptors
  are represented by the control channel of the machine below. \<open>loopcount\<close> is a
  C \<open>int\<close>: the source only ever assigns it, compares it with 0 and decrements it when it is
  positive, so it cannot overflow and is an \<open>int\<close> here. \<open>endtime\<close> is a \<open>Uint32\<close>.
\<close>

record NativeMidiSong =
  playerthread :: "nat option"
  ppqn :: "16 word"
  evtlist :: "MIDIEvent list"
  seq :: int
  srcport :: int
  dstaddr :: snd_seq_addr
  loopcount :: int
  endtime :: "32 word"
  playerstate :: native_midi_state
  allow_pause :: bool

section \<open>Actions and the machine state\<close>

text \<open>
  What the program does to the outside world is recorded as a trace of actions, in program
  order: the calls on the sequencer, the writes of the atomic playback state, the system
  calls of the control surface, and the per-event debug line of the translation step (line
  610 of the source; it says whether the event was unhandled). \<open>EVENT_OUTPUT ev r\<close> is a
  call of \<open>snd_seq_event_output\<close> that returned \<open>r\<close>, \<open>SOCK_WRITE pkt r\<close> a call of
  \<open>write\<close> on the main socket that returned \<open>r\<close>.
\<close>

datatype action =
    ALLOC_QUEUE int
  | START_QUEUE int
  | POLL_DESCRIPTORS
  | NONBLOCK bool
  | SET_QUEUE_TEMPO int nat "16 word"
  | EVENT_OUTPUT snd_seq_event int
  | EVENT_OUTPUT_DIRECT snd_seq_event
  | DRAIN_OUTPUT
  | DROP_OUTPUT
  | STOP_QUEUE int
  | FREE_QUEUE int
  | ATOMIC_SET native_midi_state
  | DBG_LOG bool MIDIEvent
  | SOCK_WRITE packet int
  | WAIT_THREAD nat
  | CREATE_THREAD

text \<open>
  Where the player thread of the song is: none was created (or the last one has been
  joined and none created since), it was created and has not run its setup yet, it is in
  its event loop, it has returned, or it is stuck for good (in a retry loop that does not
  return, or after a read through a \<open>NULL\<close> cursor).
\<close>

datatype thread_phase = NO_THREAD | CREATED | LOOPING | RETURNED | STUCK

text \<open>
  The machine: the song, the local variables of \<open>native_midi_player_thread\<close> (meaningful
  while a player thread runs), whether \<open>pfds[1].events\<close> still asks for \<open>POLLOUT\<close>, the
  packets written to the main socket and not yet read from the thread socket, where the
  player thread is, and the trace so far.
\<close>

record machine =
  song :: NativeMidiSong
  thread :: thread_phase
  current_volume :: "8 word"
  playback_finished :: bool
  event :: "MIDIEvent list"
  evt :: snd_seq_event
  queue :: int
  pollout :: bool
  chan :: "packet list"
  trace :: "action list"

definition emit :: "action list \<Rightarrow> machine \<Rightarrow> machine" where
  "emit as m = m\<lparr>trace := trace m @ as\<rparr>"

definition SDL_AtomicSet :: "native_midi_state \<Rightarrow> machine \<Rightarrow> machine" where
  "SDL_AtomicSet s m = emit [ATOMIC_SET s] (m\<lparr>song := (song m)\<lparr>playerstate := s\<rparr>\<rparr>)"

section \<open>The player thread\<close>

text \<open>
  The retry loop \<open>while (snd_seq_event_output(seq, &evt) == -EAGAIN) ;\<close>. Its input is the
  list of codes the successive calls return. The loop ends at the first code other than
  \<open>-EAGAIN\<close>; a list that holds no such code stands for a transport that answered
  try-again for as long as it was observed, and the loop has not returned (\<open>None\<close>).
\<close>

fun output_retry :: "snd_seq_event \<Rightarrow> int list \<Rightarrow> action list option" where
  "output_retry ev [] = None"
| "output_retry ev (r # rs) =
     (if r = - EAGAIN
      then (case output_retry ev rs of None \<Rightarrow> None | Some as \<Rightarrow> Some (EVENT_OUTPUT ev r # as))
      else Some [EVENT_OUTPUT ev r])"

definition echo_event :: "NativeMidiSong \<Rightarrow> int \<Rightarrow> snd_seq_event" where
  "echo_event s q =
     snd_seq_ev_schedule_tick q (endtime s + 1)
       (snd_seq_ev_set_dest \<lparr>client = seq s, port = srcport s\<rparr>
         (snd_seq_ev_set_source (srcport s) (snd_seq_ev_clear\<lparr>ev_data := EV_ECHO\<rparr>)))"

definition enqueue_echo_event :: "int list \<Rightarrow> machine \<Rightarrow> machine option" where
  "enqueue_echo_event rets m =
     (case output_retry (echo_event (song m) (queue m)) rets of
        None \<Rightarrow> None
      | Some as \<Rightarrow> Some (emit as m))"

definition queue_reset_event :: "NativeMidiSong \<Rightarrow> int \<Rightarrow> snd_seq_event" where
  "queue_reset_event s q =
     snd_seq_ev_schedule_tick q 0
       (snd_seq_ev_set_queue_pos_tick q 0
         (snd_seq_ev_set_source (srcport s) snd_seq_ev_clear))"

definition enqueue_queue_reset_event :: "int list \<Rightarrow> machine \<Rightarrow> machine option" where
  "enqueue_queue_reset_event rets m =
     (case output_retry (queue_reset_event (song m) (queue m)) rets of
        None \<Rightarrow> None
      | Some as \<Rightarrow> Some (emit as m))"

definition volume_sysex :: "NativeMidiSong \<Rightarrow> 8 word \<Rightarrow> snd_seq_event" where
  "volume_sysex s vol =
     snd_seq_ev_set_sysex
       [MIDI_CMD_COMMON_SYSEX, 0x7F, 0x7F, 0x04, 0x01, 0x00, vol, MIDI_CMD_COMMON_SYSEX_END]
       (snd_seq_ev_set_direct
          (snd_seq_ev_set_dest (dstaddr s)
             (snd_seq_ev_set_source (srcport s) snd_seq_ev_clear)))"

definition send_volume_sysex :: "8 word \<Rightarrow> machine \<Rightarrow> machine" where
  "send_volume_sysex vol m = emit [EVENT_OUTPUT_DIRECT (volume_sysex (song m) vol)] m"

definition stop_queue :: "machine \<Rightarrow> machine" where
  "stop_queue m =
     emit [EVENT_OUTPUT_DIRECT
            (snd_seq_ev_set_direct (snd_seq_ev_set_queue_control (EV_STOP (queue m)) snd_seq_ev_clear))] m"

definition continue_queue :: "machine \<Rightarrow> machine" where
  "continue_queue m =
     emit [EVENT_OUTPUT_DIRECT
            (snd_seq_ev_set_direct (snd_seq_ev_set_queue_control (EV_CONTINUE (queue m)) snd_seq_ev_clear))] m"

text \<open>
  One wake of the event loop is one return of \<open>poll\<close>. The record holds what the
  environment answers during that iteration: the value \<open>poll\<close> returns, the \<open>POLLIN\<close> bit
  of the thread socket and the packet a \<open>read\<close> of \<open>CMD_PKT_LEN\<close> bytes delivers
  (\<open>None\<close> when \<open>read\<close> returns anything but \<open>CMD_PKT_LEN\<close>), the \<open>POLLIN\<close> and
  \<open>POLLOUT\<close> bits of the sequencer descriptor, whether \<open>snd_seq_event_input\<close> succeeds
  with an echo event whose source is this client and port, and the codes returned by
  \<open>snd_seq_drain_output\<close>, by the \<open>snd_seq_event_output\<close> of the translation step and
  by the two retry loops of a restart.
\<close>

record wake =
  poll_ret :: int
  cmd_pollin :: bool
  cmd_read :: "packet option"
  seq_pollin :: bool
  seq_input_echo :: bool
  seq_pollout :: bool
  drain_ret :: int
  output_ret :: int
  reset_rets :: "int list"
  echo_rets :: "int list"

text \<open>The \<open>switch\<close> on the opcode of a packet that was read (lines 484 to 508).\<close>

definition handle_command :: "packet \<Rightarrow> machine \<Rightarrow> machine" where
  "handle_command pkt m =
     (if fst pkt = THREAD_CMD_QUIT then
        m\<lparr>event := [], song := (song m)\<lparr>loopcount := 0\<rparr>, playback_finished := True\<rparr>
      else if fst pkt = THREAD_CMD_SETVOL then
        send_volume_sysex (snd pkt) (m\<lparr>current_volume := snd pkt\<rparr>)
      else if fst pkt = THREAD_CMD_PAUSE then
        SDL_AtomicSet NATIVE_MIDI_PAUSED (stop_queue (send_volume_sysex 0 m))
      else if fst pkt = THREAD_CMD_RESUME then
        SDL_AtomicSet NATIVE_MIDI_PLAYING (send_volume_sysex (current_volume m) (continue_queue m))
      else m)"

definition read_command :: "wake \<Rightarrow> machine \<Rightarrow> machine" where
  "read_command w m =
     (if cmd_pollin w
      then (case cmd_read w of None \<Rightarrow> m | Some pkt \<Rightarrow> handle_command pkt m)
      else m)"

definition read_sequencer :: "wake \<Rightarrow> machine \<Rightarrow> machine" where
  "read_sequencer w m =
     (if seq_pollin w \<and> seq_input_echo w then m\<lparr>playback_finished := True\<rparr> else m)"

text \<open>
  The translation of the event under the cursor (lines 558 to 606): destination and tick
  are set first, then the constructor chosen by the status nibble. The result says whether
  the event is unhandled, and gives the sequencer event \<open>evt\<close> as it then stands.
\<close>

definition pitchbend_value :: "8 word \<Rightarrow> 8 word \<Rightarrow> int" where
  "pitchbend_value d0 d1 = (push_bit 7 (uint d1) OR uint (d0 AND 0x7F)) - 8192"

definition tempo_value :: "8 word list \<Rightarrow> 32 word" where
  "tempo_value xs = push_bit 16 (ucast (xs ! 0)) OR push_bit 8 (ucast (xs ! 1)) OR ucast (xs ! 2)"

definition translate :: "NativeMidiSong \<Rightarrow> int \<Rightarrow> MIDIEvent \<Rightarrow> snd_seq_event \<Rightarrow> bool \<times> snd_seq_event" where
  "translate s q e ev0 =
     (let cmd = status e AND 0xF0;
          channel = status e AND 0x0F;
          ev = snd_seq_ev_schedule_tick q (time e) (snd_seq_ev_set_dest (dstaddr s) ev0)
      in if cmd = MIDI_CMD_NOTE_ON then (False, snd_seq_ev_set_noteon channel (data0 e) (data1 e) ev)
         else if cmd = MIDI_CMD_NOTE_OFF then (False, snd_seq_ev_set_noteoff channel (data0 e) (data1 e) ev)
         else if cmd = MIDI_CMD_CONTROL then (False, snd_seq_ev_set_controller channel (data0 e) (data1 e) ev)
         else if cmd = MIDI_CMD_NOTE_PRESSURE then (False, snd_seq_ev_set_keypress channel (data0 e) (data1 e) ev)
         else if cmd = MIDI_CMD_PGM_CHANGE then (False, snd_seq_ev_set_pgmchange channel (data0 e) ev)
         else if cmd = MIDI_CMD_BENDER then
           (False, snd_seq_ev_set_pitchbend channel (pitchbend_value (data0 e) (data1 e)) ev)
         else if status e = MIDI_SMF_META_EVENT \<and> data0 e = MIDI_SMF_META_TEMPO \<and> extraLen e = 3 then
           (False, snd_seq_ev_set_queue_tempo q (tempo_value (extraData e)) ev)
         else (True, ev))"

text \<open>
  The control flow of one iteration ends in one of four ways: the loop goes on to the next
  \<open>poll\<close>, it is left by \<open>break\<close>, it is caught in a retry loop that has not returned, or
  it reads \<open>event->status\<close> through a \<open>NULL\<close> cursor (possible only for a song whose event
  list is empty, which \<open>native_midi_loadsong_RW\<close> never returns).
\<close>

datatype loop_ctl = CONTINUE | BREAK | SPINNING | NULL_DEREF

text \<open>
  Lines 553 to 612: nothing is sent without \<open>POLLOUT\<close>; otherwise the event is translated
  and, unless it is unhandled, given to \<open>snd_seq_event_output\<close>; the cursor advances when
  the event was unhandled or the call returned anything but \<open>-EAGAIN\<close>.
\<close>

definition send_event :: "wake \<Rightarrow> machine \<Rightarrow> loop_ctl \<times> machine" where
  "send_event w m =
     (if \<not> seq_pollout w then (CONTINUE, m)
      else (case event m of
              [] \<Rightarrow> (NULL_DEREF, m)
            | e # rest \<Rightarrow>
                (let (unhandled, ev) = translate (song m) (queue m) e (evt m);
                     m1 = m\<lparr>evt := ev\<rparr>
                 in if unhandled then (CONTINUE, emit [DBG_LOG True e] (m1\<lparr>event := rest\<rparr>))
                    else if output_ret w \<noteq> - EAGAIN
                      then (CONTINUE, emit [EVENT_OUTPUT ev (output_ret w), DBG_LOG False e] (m1\<lparr>event := rest\<rparr>))
                      else (CONTINUE, emit [EVENT_OUTPUT ev (output_ret w)] m1))))"

text \<open>Lines 529 to 542: the cursor goes back to the head and a new echo is armed.\<close>

definition restart :: "wake \<Rightarrow> machine \<Rightarrow> machine option" where
  "restart w m =
     (case enqueue_queue_reset_event (reset_rets w) (m\<lparr>event := evtlist (song m)\<rparr>) of
        None \<Rightarrow> None
      | Some m1 \<Rightarrow>
          (case enqueue_echo_event (echo_rets w) m1 of
             None \<Rightarrow> None
           | Some m2 \<Rightarrow>
               Some (m2\<lparr>song := (if loopcount (song m2) > 0
                                 then (song m2)\<lparr>loopcount := loopcount (song m2) - 1\<rparr>
                                 else song m2),
                        playback_finished := False,
                        pollout := True\<rparr>)))"

text \<open>Lines 546 to 549: keep draining until the echo arrives.\<close>

definition drain :: "wake \<Rightarrow> machine \<Rightarrow> machine" where
  "drain w m =
     (if drain_ret w = 0 then (emit [DRAIN_OUTPUT] m)\<lparr>pollout := False\<rparr> else emit [DRAIN_OUTPUT] m)"

text \<open>One iteration of \<open>while (1)\<close> (lines 472 to 613).\<close>

definition loop_body :: "wake \<Rightarrow> machine \<Rightarrow> loop_ctl \<times> machine" where
  "loop_body w m0 =
     (if poll_ret w \<le> 0 then (BREAK, m0)
      else (let m = read_sequencer w (read_command w m0)
            in if event m = [] then
                 (if playback_finished m then
                    (if loopcount (song m) = 0 then (BREAK, m)
                     else (case restart w m of
                             None \<Rightarrow> (SPINNING, m)
                           | Some m' \<Rightarrow> send_event w m'))
                  else (CONTINUE, drain w m))
               else send_event w m))"

text \<open>
  The loop over the wakes the environment delivers. When they are used up the thread is
  blocked in \<open>poll\<close> (which has no timeout) and the loop is still running: \<open>CONTINUE\<close>.
\<close>

fun run_loop :: "wake list \<Rightarrow> machine \<Rightarrow> loop_ctl \<times> machine" where
  "run_loop [] m = (CONTINUE, m)"
| "run_loop (w # ws) m =
     (case loop_body w m of
        (CONTINUE, m') \<Rightarrow> run_loop ws m'
      | (c, m') \<Rightarrow> (c, m'))"

text \<open>
  Lines 438 to 470: the part of the thread before the loop. \<open>q\<close> is the queue id that
  \<open>snd_seq_alloc_named_queue\<close> returns, \<open>rets\<close> the codes the retry loop of the first echo
  sees.
\<close>

definition thread_setup :: "int \<Rightarrow> int list \<Rightarrow> machine \<Rightarrow> machine option" where
  "thread_setup q rets m =
     (let m1 = emit [ALLOC_QUEUE q, START_QUEUE q]
                 (m\<lparr>current_volume := 0x7F, playback_finished := False,
                    event := evtlist (song m), queue := q\<rparr>);
          m2 = m1\<lparr>evt := snd_seq_ev_set_dest (dstaddr (song m))
                            (snd_seq_ev_set_source (srcport (song m)) snd_seq_ev_clear)\<rparr>;
          m3 = emit [POLL_DESCRIPTORS, NONBLOCK True] (m2\<lparr>pollout := True\<rparr>);
          m4 = emit [SET_QUEUE_TEMPO q 500000 (ppqn (song m))] m3
      in (case enqueue_echo_event rets m4 of
            None \<Rightarrow> None
          | Some m5 \<Rightarrow> Some (SDL_AtomicSet NATIVE_MIDI_PLAYING m5)))"

text \<open>Lines 615 to 636: what the thread does after the loop.\<close>

definition all_off :: "nat \<Rightarrow> machine \<Rightarrow> machine" where
  "all_off i m =
     (let e1 = snd_seq_ev_set_controller (of_nat i) MIDI_CTL_SUSTAIN 0 (evt m);
          e2 = snd_seq_ev_set_controller (of_nat i) MIDI_CTL_ALL_NOTES_OFF 0 e1;
          e3 = snd_seq_ev_set_controller (of_nat i) MIDI_CTL_RESET_CONTROLLERS 0 e2;
          e4 = snd_seq_ev_set_controller (of_nat i) MIDI_CTL_ALL_SOUNDS_OFF 0 e3
      in emit [EVENT_OUTPUT_DIRECT e1, EVENT_OUTPUT_DIRECT e2, EVENT_OUTPUT_DIRECT e3, EVENT_OUTPUT_DIRECT e4]
           (m\<lparr>evt := e4\<rparr>))"

definition thread_cleanup :: "machine \<Rightarrow> machine" where
  "thread_cleanup m =
     (let m1 = SDL_AtomicSet NATIVE_MIDI_STOPPED m;
          m2 = emit [NONBLOCK False, DROP_OUTPUT, STOP_QUEUE (queue m), DRAIN_OUTPUT, FREE_QUEUE (queue m)] m1;
          m3 = m2\<lparr>evt := snd_seq_ev_set_direct (evt m2)\<rparr>
      in fold all_off [0 ..< MIDI_CHANNELS] m3)"

text \<open>
  The whole thread function. The result is \<open>BREAK\<close> with the final machine when the thread
  has returned; otherwise it says where the thread still is.
\<close>

definition native_midi_player_thread :: "int \<Rightarrow> int list \<Rightarrow> wake list \<Rightarrow> machine \<Rightarrow> loop_ctl \<times> machine" where
  "native_midi_player_thread q rets ws m =
     (case thread_setup q rets m of
        None \<Rightarrow> (SPINNING, m)
      | Some m1 \<Rightarrow>
          (case run_loop ws m1 of
             (BREAK, m2) \<Rightarrow> (BREAK, thread_cleanup m2)
           | (c, m2) \<Rightarrow> (c, m2)))"

section \<open>Loading a song\<close>

text \<open>
  \<open>native_midi_loadsong_RW\<close>, after its allocations. The arguments are what its
  collaborators return: whether \<open>socketpair\<close> succeeded, the event list and the
  pulses-per-quarter-note of \<open>CreateMIDIEventList\<close> (an empty list is its \<open>NULL\<close>
  result), the client id and source port of \<open>open_seq\<close> (\<open>None\<close> when it fails), the
  destination \<open>pick_seq_dest_addr\<close> settles on, and the pause hint. The song comes from
  \<open>SDL_calloc\<close>, so the fields that are not assigned are zero; the write of the playback
  state is the first entry of the trace. The result is the current song.
\<close>

definition end_time :: "MIDIEvent list \<Rightarrow> 32 word" where
  "end_time evs = time (last evs)"

definition native_midi_loadsong_RW ::
  "bool \<Rightarrow> MIDIEvent list \<Rightarrow> 16 word \<Rightarrow> (int \<times> int) option \<Rightarrow> snd_seq_addr \<Rightarrow> bool \<Rightarrow> machine option" where
  "native_midi_loadsong_RW sock_ok evs pq opened dst hint =
     (if \<not> sock_ok then None
      else if evs = [] then None
      else (case opened of
              None \<Rightarrow> None
            | Some (cid, sport) \<Rightarrow>
                Some \<lparr>song = \<lparr>playerthread = None, ppqn = pq, evtlist = evs, seq = cid,
                              srcport = sport, dstaddr = dst, loopcount = 0,
                              endtime = end_time evs, playerstate = NATIVE_MIDI_STOPPED,
                              allow_pause = hint\<rparr>,
                      thread = NO_THREAD, current_volume = 0, playback_finished = False,
                      event = [], evt = snd_seq_ev_clear, queue = 0, pollout = False,
                      chan = [], trace = [ATOMIC_SET NATIVE_MIDI_STOPPED]\<rparr>))"

section \<open>The player thread as seen from the rest of the process\<close>

text \<open>
  The thread advances on inputs of the environment: one input lets a created thread run
  its setup, one lets a looping thread run one iteration. An iteration reads its command
  from the control channel: the thread socket is readable exactly when a packet is pending,
  and the \<open>read\<close> takes the oldest one. A thread that leaves the loop runs its cleanup
  and has returned.
\<close>

datatype tinput = SETUP int "int list" | WAKE wake

definition from_chan :: "machine \<Rightarrow> wake \<Rightarrow> wake" where
  "from_chan m w =
     w\<lparr>cmd_pollin := (chan m \<noteq> []),
       cmd_read := (case chan m of [] \<Rightarrow> None | pkt # _ \<Rightarrow> Some pkt)\<rparr>"

definition thread_wake :: "wake \<Rightarrow> machine \<Rightarrow> machine" where
  "thread_wake w m =
     (let m0 = (if poll_ret w \<le> 0 then m else m\<lparr>chan := tl (chan m)\<rparr>)
      in (case loop_body (from_chan m w) m0 of
            (CONTINUE, m') \<Rightarrow> m'
          | (BREAK, m') \<Rightarrow> (thread_cleanup m')\<lparr>thread := RETURNED\<rparr>
          | (SPINNING, m') \<Rightarrow> m'\<lparr>thread := STUCK\<rparr>
          | (NULL_DEREF, m') \<Rightarrow> m'\<lparr>thread := STUCK\<rparr>))"

fun thread_step :: "tinput \<Rightarrow> machine \<Rightarrow> machine" where
  "thread_step (SETUP q rets) m =
     (if thread m = CREATED
      then (case thread_setup q rets m of
              None \<Rightarrow> m\<lparr>thread := STUCK\<rparr>
            | Some m' \<Rightarrow> m'\<lparr>thread := LOOPING\<rparr>)
      else m)"
| "thread_step (WAKE w) m = (if thread m = LOOPING then thread_wake w m else m)"

section \<open>The control surface\<close>

text \<open>
  A \<open>write\<close> of one packet on the main socket. \<open>r\<close> is the value the call returns; the
  packet reaches the channel when \<open>r\<close> is the packet length, and nothing does otherwise.
\<close>

definition sock_write :: "packet \<Rightarrow> int \<Rightarrow> machine \<Rightarrow> machine" where
  "sock_write pkt r m =
     emit [SOCK_WRITE pkt r] (if r = CMD_PKT_LEN then m\<lparr>chan := chan m @ [pkt]\<rparr> else m)"

text \<open>
  \<open>SDL_WaitThread\<close>: the caller waits while the player thread runs on the inputs \<open>ins\<close>
  that the environment gives it. The wait is over when the thread has returned.
\<close>

definition SDL_WaitThread :: "nat \<Rightarrow> tinput list \<Rightarrow> machine \<Rightarrow> machine" where
  "SDL_WaitThread t ins m = fold thread_step ins (emit [WAIT_THREAD t] m)"

text \<open>
  A call of the control surface either returns, leaving the current song (\<open>None\<close> when
  there is none), or is still blocked in \<open>SDL_WaitThread\<close> after all the given inputs.
\<close>

datatype outcome = RETURNS "machine option" | BLOCKS machine

text \<open>Lines 654 to 659. \<open>created\<close> is what \<open>SDL_CreateThread\<close> returns.\<close>

definition start_thread :: "nat option \<Rightarrow> int \<Rightarrow> machine \<Rightarrow> machine" where
  "start_thread created loops m =
     (let m1 = m\<lparr>song := (song m)\<lparr>loopcount := loops\<rparr>\<rparr>;
          m2 = SDL_AtomicSet NATIVE_MIDI_STARTING m1;
          m3 = emit [CREATE_THREAD] m2
      in m3\<lparr>song := (song m3)\<lparr>playerthread := created\<rparr>,
            thread := (if created = None then thread m3 else CREATED)\<rparr>)"

text \<open>
  \<open>native_midi_start\<close>. \<open>cur\<close> is the value of \<open>SDL_AtomicGet(&currentsong->playerstate)\<close>:
  the source reads the state of the current song there, which is the song's own state when
  the song that is started is the current one.
\<close>

definition native_midi_start ::
  "tinput list \<Rightarrow> int \<Rightarrow> nat option \<Rightarrow> native_midi_state \<Rightarrow> int \<Rightarrow> machine option \<Rightarrow> outcome" where
  "native_midi_start ins r created cur loops so =
     (case so of
        None \<Rightarrow> RETURNS None
      | Some m \<Rightarrow>
          (case playerthread (song m) of
             None \<Rightarrow> RETURNS (Some (start_thread created loops m))
           | Some t \<Rightarrow>
               (let quit = (state_val cur > state_val NATIVE_MIDI_STOPPED);
                    m1 = (if quit then sock_write pkt_thread_cmd_quit r m else m)
                in if quit \<and> r \<noteq> CMD_PKT_LEN then RETURNS (Some m1)
                   else (let m2 = SDL_WaitThread t ins m1
                         in if thread m2 = RETURNED
                            then RETURNS (Some (start_thread created loops m2))
                            else BLOCKS m2))))"

definition native_midi_pause :: "int \<Rightarrow> machine option \<Rightarrow> machine option" where
  "native_midi_pause r cs =
     (case cs of
        None \<Rightarrow> None
      | Some m \<Rightarrow>
          if playerstate (song m) = NATIVE_MIDI_STOPPED \<or> \<not> allow_pause (song m) then Some m
          else Some (sock_write pkt_thread_cmd_pause r m))"

definition native_midi_resume :: "int \<Rightarrow> machine option \<Rightarrow> machine option" where
  "native_midi_resume r cs =
     (case cs of
        None \<Rightarrow> None
      | Some m \<Rightarrow>
          if playerstate (song m) \<noteq> NATIVE_MIDI_PAUSED \<or> \<not> allow_pause (song m) then Some m
          else Some (sock_write pkt_thread_cmd_resume r m))"

definition native_midi_stop :: "tinput list \<Rightarrow> int \<Rightarrow> machine option \<Rightarrow> outcome" where
  "native_midi_stop ins r cs =
     (case cs of
        None \<Rightarrow> RETURNS None
      | Some m \<Rightarrow>
          (case playerthread (song m) of
             None \<Rightarrow> RETURNS (Some m)
           | Some t \<Rightarrow>
               (let quit = (state_val (playerstate (song m)) > state_val NATIVE_MIDI_STOPPED);
                    m1 = (if quit then sock_write pkt_thread_cmd_quit r m else m)
                in if quit \<and> r \<noteq> CMD_PKT_LEN then RETURNS (Some m1)
                   else (let m2 = SDL_WaitThread t ins m1
                         in if thread m2 = RETURNED
                            then RETURNS (Some (m2\<lparr>song := (song m2)\<lparr>playerthread := None\<rparr>\<rparr>))
                            else BLOCKS m2))))"

definition native_midi_active :: "machine option \<Rightarrow> bool" where
  "native_midi_active cs =
     (case cs of
        None \<Rightarrow> False
      | Some m \<Rightarrow> state_val (playerstate (song m)) > state_val NATIVE_MIDI_STOPPED)"

text \<open>
  \<open>native_midi_setvolume\<close>. The clamped \<open>int\<close> is stored into an \<open>unsigned char\<close>; it is
  between 0 and 127 by then, so the conversion keeps its value.
\<close>

definition clamp_volume :: "int \<Rightarrow> int" where
  "clamp_volume volume = (if volume < 0 then 0 else if volume > 0x7F then 0x7F else volume)"

definition native_midi_setvolume :: "int \<Rightarrow> int \<Rightarrow> machine option \<Rightarrow> machine option" where
  "native_midi_setvolume r volume cs =
     (case cs of
        None \<Rightarrow> None
      | Some m \<Rightarrow>
          if playerstate (song m) \<noteq> NATIVE_MIDI_PLAYING then Some m
          else Some (sock_write (THREAD_CMD_SETVOL, word_of_int (clamp_volume volume)) r m))"

section \<open>Runs of the whole process\<close>

text \<open>
  A run is a sequence of steps on one song: a call of the control surface, with what the
  environment answers during the call, or one input for the player thread of the song.
  \<open>native_midi_pause\<close>, \<open>native_midi_resume\<close>, \<open>native_midi_stop\<close> and
  \<open>native_midi_setvolume\<close> act on the song as the current song. A call of
  \<open>native_midi_start\<close> carries the state that it reads from the current song, which is
  any state at all when another song is the current one. A call runs as one step, except
  that the thread runs during its join, on the inputs given to the call. A call that is
  still blocked in its join ends the run, because the caller makes no further call.
\<close>

datatype sched =
    CALL_START "tinput list" int "nat option" native_midi_state int
  | CALL_PAUSE int
  | CALL_RESUME int
  | CALL_STOP "tinput list" int
  | CALL_SETVOLUME int int
  | THREAD_RUNS tinput

fun step :: "sched \<Rightarrow> machine \<Rightarrow> outcome" where
  "step (CALL_START ins r created cur loops) m =
     native_midi_start ins r created cur loops (Some m)"
| "step (CALL_PAUSE r) m = RETURNS (native_midi_pause r (Some m))"
| "step (CALL_RESUME r) m = RETURNS (native_midi_resume r (Some m))"
| "step (CALL_STOP ins r) m = native_midi_stop ins r (Some m)"
| "step (CALL_SETVOLUME r v) m = RETURNS (native_midi_setvolume r v (Some m))"
| "step (THREAD_RUNS i) m = RETURNS (Some (thread_step i m))"

fun exec :: "sched list \<Rightarrow> machine \<Rightarrow> machine" where
  "exec [] m = m"
| "exec (x # xs) m =
     (case step x m of
        RETURNS (Some m') \<Rightarrow> exec xs m'
      | RETURNS None \<Rightarrow> m
      | BLOCKS m' \<Rightarrow> m')"

section \<open>Observations on traces\<close>

text \<open>The playback states written, in order.\<close>

fun written :: "action \<Rightarrow> native_midi_state list" where
  "written (ATOMIC_SET s) = [s]"
| "written _ = []"

definition state_writes :: "action list \<Rightarrow> native_midi_state list" where
  "state_writes tr = concat (map written tr)"

text \<open>
  The transitions of the playback state: the diagram
  \<open>STOPPED \<rightarrow> STARTING \<rightarrow> PLAYING \<rightleftharpoons> PAUSED \<rightarrow> STOPPED\<close> of section 3 of the
  specification, with its last arrow read as its sections 4.5 and 8 read it. Section 4.5
  has a session go "back to STOPPED on natural completion, loop exhaustion with zero
  remaining loops, or explicit QUIT" and makes PAUSED reachable only for a song that allows
  pausing, and scenario 1 of section 8 "transitions PLAYING\<rightarrow>STOPPED": the arrow into
  STOPPED leaves the pair of PLAYING and PAUSED, so both PLAYING \<rightarrow> STOPPED and
  PAUSED \<rightarrow> STOPPED are edges. A write of the state that is already there is a self-loop.
\<close>

fun diagram_edge :: "native_midi_state \<Rightarrow> native_midi_state \<Rightarrow> bool" where
  "diagram_edge NATIVE_MIDI_STOPPED NATIVE_MIDI_STARTING = True"
| "diagram_edge NATIVE_MIDI_STARTING NATIVE_MIDI_PLAYING = True"
| "diagram_edge NATIVE_MIDI_PLAYING NATIVE_MIDI_PAUSED = True"
| "diagram_edge NATIVE_MIDI_PAUSED NATIVE_MIDI_PLAYING = True"
| "diagram_edge NATIVE_MIDI_PLAYING NATIVE_MIDI_STOPPED = True"
| "diagram_edge NATIVE_MIDI_PAUSED NATIVE_MIDI_STOPPED = True"
| "diagram_edge s t = (s = t)"

text \<open>\<open>follows s ts\<close>: starting in state \<open>s\<close>, every write of the list takes an edge.\<close>

fun follows :: "native_midi_state \<Rightarrow> native_midi_state list \<Rightarrow> bool" where
  "follows s [] = True"
| "follows s (t # ts) = (diagram_edge s t \<and> follows t ts)"

text \<open>
  The events of a trace that the translation step went past (one debug line each), in
  order.
\<close>

fun logged :: "action \<Rightarrow> MIDIEvent list" where
  "logged (DBG_LOG u e) = [e]"
| "logged _ = []"

definition passes_log :: "action list \<Rightarrow> MIDIEvent list" where
  "passes_log tr = concat (map logged tr)"

text \<open>An echo sentinel is enqueued when its retry loop ends.\<close>

fun is_echo_enqueued :: "action \<Rightarrow> bool" where
  "is_echo_enqueued (EVENT_OUTPUT ev r) = (ev_data ev = EV_ECHO \<and> r \<noteq> - EAGAIN)"
| "is_echo_enqueued _ = False"

definition echo_count :: "action list \<Rightarrow> nat" where
  "echo_count tr = length (filter is_echo_enqueued tr)"

text \<open>The actions a machine has added to its trace since an earlier machine.\<close>

definition since :: "machine \<Rightarrow> machine \<Rightarrow> action list" where
  "since m m' = drop (length (trace m)) (trace m')"

text \<open>
  What a wake makes the loop read from the control channel: a QUIT command, or a volume.
\<close>

definition reads_quit :: "wake \<Rightarrow> bool" where
  "reads_quit w =
     (cmd_pollin w \<and> (case cmd_read w of None \<Rightarrow> False | Some pkt \<Rightarrow> fst pkt = THREAD_CMD_QUIT))"

definition reads_setvol :: "wake \<Rightarrow> 8 word option" where
  "reads_setvol w =
     (if 0 < poll_ret w \<and> cmd_pollin w
      then (case cmd_read w of
              None \<Rightarrow> None
            | Some pkt \<Rightarrow> if fst pkt = THREAD_CMD_SETVOL then Some (snd pkt) else None)
      else None)"

text \<open>The volume last requested by the wakes of a session, \<open>v\<close> when there was none.\<close>

fun last_setvol :: "wake list \<Rightarrow> 8 word \<Rightarrow> 8 word" where
  "last_setvol [] v = v"
| "last_setvol (w # ws) v =
     last_setvol ws (case reads_setvol w of None \<Rightarrow> v | Some v' \<Rightarrow> v')"

text \<open>
  A cooperative environment for one pass over \<open>n\<close> events: \<open>n\<close> wakes in which the
  sequencer accepts an event, then the wake in which the echo comes back.
\<close>

definition send_wake :: wake where
  "send_wake =
     \<lparr>poll_ret = 1, cmd_pollin = False, cmd_read = None, seq_pollin = False,
      seq_input_echo = False, seq_pollout = True, drain_ret = 0, output_ret = 0,
      reset_rets = [0], echo_rets = [0]\<rparr>"

definition echo_wake :: wake where
  "echo_wake =
     \<lparr>poll_ret = 1, cmd_pollin = False, cmd_read = None, seq_pollin = True,
      seq_input_echo = True, seq_pollout = False, drain_ret = 0, output_ret = 0,
      reset_rets = [0], echo_rets = [0]\<rparr>"

definition one_pass :: "nat \<Rightarrow> wake list" where
  "one_pass n = replicate n send_wake @ [echo_wake]"

definition passes :: "nat \<Rightarrow> nat \<Rightarrow> wake list" where
  "passes k n = concat (replicate k (one_pass n))"

text \<open>
  The order of the setup as the specification words it in section 4.2: queue allocated
  and started, tempo set, echo enqueued, state PLAYING, and then the switch to
  non-blocking mode. \<open>first_at a tr\<close> is the position of the first \<open>a\<close> in \<open>tr\<close>.
\<close>

definition first_at :: "action \<Rightarrow> action list \<Rightarrow> nat" where
  "first_at a tr = length (takeWhile (\<lambda>x. x \<noteq> a) tr)"

definition spec_setup_order :: "NativeMidiSong \<Rightarrow> int \<Rightarrow> int \<Rightarrow> action list \<Rightarrow> bool" where
  "spec_setup_order s q r tr =
     (first_at (ALLOC_QUEUE q) tr < first_at (START_QUEUE q) tr \<and>
      first_at (START_QUEUE q) tr < first_at (SET_QUEUE_TEMPO q 500000 (ppqn s)) tr \<and>
      first_at (SET_QUEUE_TEMPO q 500000 (ppqn s)) tr < first_at (EVENT_OUTPUT (echo_event s q) r) tr \<and>
      first_at (EVENT_OUTPUT (echo_event s q) r) tr < first_at (ATOMIC_SET NATIVE_MIDI_PLAYING) tr \<and>
      first_at (ATOMIC_SET NATIVE_MIDI_PLAYING) tr < first_at (NONBLOCK True) tr \<and>
      first_at (NONBLOCK True) tr < length tr)"

section \<open>Concrete inputs\<close>

definition demo_note :: MIDIEvent where
  "demo_note = \<lparr>time = 0, status = 0x90, data0 = 60, data1 = 100, extraLen = 0, extraData = []\<rparr>"

definition demo_bend :: MIDIEvent where
  "demo_bend = \<lparr>time = 10, status = 0xE3, data0 = 0x7F, data1 = 0x7F, extraLen = 0, extraData = []\<rparr>"

definition demo_tempo :: MIDIEvent where
  "demo_tempo = \<lparr>time = 20, status = 0xFF, data0 = 0x51, data1 = 0, extraLen = 3,
                 extraData = [0x07, 0xA1, 0x20]\<rparr>"

definition demo_bad_tempo :: MIDIEvent where
  "demo_bad_tempo = \<lparr>time = 20, status = 0xFF, data0 = 0x51, data1 = 0, extraLen = 2,
                     extraData = [0x07, 0xA1]\<rparr>"

definition demo_song :: NativeMidiSong where
  "demo_song =
     \<lparr>playerthread = None, ppqn = 480, evtlist = [demo_note, demo_bend, demo_tempo], seq = 128,
      srcport = 0, dstaddr = \<lparr>client = 14, port = 0\<rparr>, loopcount = 0, endtime = 20,
      playerstate = NATIVE_MIDI_STOPPED, allow_pause = True\<rparr>"

definition demo_machine :: machine where
  "demo_machine =
     \<lparr>song = demo_song, thread = NO_THREAD, current_volume = 0, playback_finished = False,
      event = [], evt = snd_seq_ev_clear, queue = 0, pollout = False, chan = [],
      trace = [ATOMIC_SET NATIVE_MIDI_STOPPED]\<rparr>"

text \<open>The song while a session plays it, while one is paused, and after one ended by itself.\<close>

definition demo_playing :: machine where
  "demo_playing =
     demo_machine\<lparr>song := demo_song\<lparr>playerthread := Some 1, playerstate := NATIVE_MIDI_PLAYING\<rparr>,
                  thread := LOOPING\<rparr>"

definition demo_paused :: machine where
  "demo_paused =
     demo_machine\<lparr>song := demo_song\<lparr>playerthread := Some 1, playerstate := NATIVE_MIDI_PAUSED\<rparr>,
                  thread := LOOPING\<rparr>"

definition demo_ended :: machine where
  "demo_ended =
     demo_machine\<lparr>song := demo_song\<lparr>playerthread := Some 1\<rparr>, thread := RETURNED\<rparr>"

text \<open>
  The trace of the setup of a session on \<open>demo_machine\<close> with queue 0, when the first
  echo is accepted at once, and a wake that delivers a command packet and nothing else.
\<close>

definition demo_setup_trace :: "action list" where
  "demo_setup_trace =
     [ALLOC_QUEUE 0, START_QUEUE 0, POLL_DESCRIPTORS, NONBLOCK True,
      SET_QUEUE_TEMPO 0 500000 480, EVENT_OUTPUT (echo_event demo_song 0) 0,
      ATOMIC_SET NATIVE_MIDI_PLAYING]"

definition command_wake :: "packet \<Rightarrow> wake" where
  "command_wake pkt =
     \<lparr>poll_ret = 1, cmd_pollin = True, cmd_read = Some pkt, seq_pollin = False,
      seq_input_echo = False, seq_pollout = False, drain_ret = 0, output_ret = 0,
      reset_rets = [0], echo_rets = [0]\<rparr>"

text \<open>
  A wake in which \<open>poll\<close> fails, and a run of the whole process on the demo song: the
  song is started, the thread sets up, the song is paused, the thread reads the PAUSE
  packet, and the song is stopped, the thread reading the QUIT packet during the join.
\<close>

definition fail_wake :: wake where
  "fail_wake = send_wake\<lparr>poll_ret := - 1\<rparr>"

definition demo_run :: "sched list" where
  "demo_run =
     [CALL_START [] 2 (Some 1) NATIVE_MIDI_STOPPED 0,
      THREAD_RUNS (SETUP 0 [0]),
      CALL_PAUSE 2,
      THREAD_RUNS (WAKE (command_wake (0, 0))),
      CALL_STOP [WAKE (command_wake (0, 0))] 2]"

section \<open>Invariants of the event loop\<close>

text \<open>
  For a session that was started with loop count \<open>L\<close> on the event list \<open>evs\<close> and
  whose trace was \<open>t0\<close> before its setup, after \<open>p\<close> restarts of the list: the counter
  is \<open>L - p\<close> and not negative when \<open>L\<close> is not negative, and is still \<open>L\<close> when \<open>L\<close> is
  negative; the cursor is a suffix of the list, the events gone past since \<open>t0\<close> are \<open>p\<close>
  copies of the list followed by the part before the cursor, and \<open>p + 1\<close> echo events
  were enqueued.
\<close>

definition count_inv :: "int \<Rightarrow> nat \<Rightarrow> int \<Rightarrow> bool" where
  "count_inv L p lc \<longleftrightarrow> (if 0 \<le> L then lc = L - int p \<and> 0 \<le> lc else lc = L)"

definition log_inv :: "MIDIEvent list \<Rightarrow> action list \<Rightarrow> nat \<Rightarrow> machine \<Rightarrow> bool" where
  "log_inv evs t0 p m \<longleftrightarrow>
     (\<exists>done x. evs = done @ event m \<and> trace m = t0 @ x
         \<and> passes_log x = concat (replicate p evs) @ done \<and> echo_count x = Suc p)"

definition pass_inv :: "int \<Rightarrow> MIDIEvent list \<Rightarrow> action list \<Rightarrow> nat \<Rightarrow> machine \<Rightarrow> bool" where
  "pass_inv L evs t0 p m \<longleftrightarrow>
     evtlist (song m) = evs \<and> log_inv evs t0 p m \<and> count_inv L p (loopcount (song m))"

section \<open>Invariants of the whole process\<close>

text \<open>
  \<open>ext_quiet m m'\<close>: from \<open>m\<close> to \<open>m'\<close> the trace has grown by actions that write no
  playback state, and state, thread handle and thread phase are as they were.
  \<open>phase_ok\<close> relates the phase of the player thread to the playback state and the thread
  handle of the song. \<open>sys_inv\<close>: the states written so far follow the edges from STOPPED
  (the value of the field in the zeroed song), the playback state is the last one written,
  and the phase fits.
\<close>

definition ext_quiet :: "machine \<Rightarrow> machine \<Rightarrow> bool" where
  "ext_quiet m m' \<longleftrightarrow>
     (\<exists>as. trace m' = trace m @ as \<and> state_writes as = [])
     \<and> playerstate (song m') = playerstate (song m)
     \<and> playerthread (song m') = playerthread (song m)
     \<and> thread m' = thread m"

fun phase_ok :: "thread_phase \<Rightarrow> native_midi_state \<Rightarrow> nat option \<Rightarrow> bool" where
  "phase_ok NO_THREAD s h = (h = None \<and> (s = NATIVE_MIDI_STOPPED \<or> s = NATIVE_MIDI_STARTING))"
| "phase_ok CREATED s h = (h \<noteq> None \<and> s = NATIVE_MIDI_STARTING)"
| "phase_ok LOOPING s h = (h \<noteq> None \<and> (s = NATIVE_MIDI_PLAYING \<or> s = NATIVE_MIDI_PAUSED))"
| "phase_ok RETURNED s h = (s = NATIVE_MIDI_STOPPED \<or> (s = NATIVE_MIDI_STARTING \<and> h = None))"
| "phase_ok STUCK s h = (h \<noteq> None)"

definition sys_inv :: "machine \<Rightarrow> bool" where
  "sys_inv m \<longleftrightarrow>
     follows NATIVE_MIDI_STOPPED (state_writes (trace m))
     \<and> playerstate (song m) = last (NATIVE_MIDI_STOPPED # state_writes (trace m))
     \<and> phase_ok (thread m) (playerstate (song m)) (playerthread (song m))"

section \<open>Basic facts about traces and the control channel\<close>

lemma trace_emit [simp]: "trace (emit as m) = trace m @ as"
  by (simp add: emit_def)

lemma song_emit [simp]: "song (emit as m) = song m"
  by (simp add: emit_def)

lemma chan_emit [simp]: "chan (emit as m) = chan m"
  by (simp add: emit_def)

lemma thread_emit [simp]: "thread (emit as m) = thread m"
  by (simp add: emit_def)

lemma trace_sock_write [simp]: "trace (sock_write pkt r m) = trace m @ [SOCK_WRITE pkt r]"
  by (simp add: sock_write_def)

lemma song_sock_write [simp]: "song (sock_write pkt r m) = song m"
  by (simp add: sock_write_def)

lemma sock_write_neq: "sock_write pkt r m \<noteq> m"
proof
  assume "sock_write pkt r m = m"
  then have "trace (sock_write pkt r m) = trace m" by simp
  then show False by simp
qed

section \<open>Preconditions of the control surface\<close>

text \<open>
  Claim C4. \<open>native_midi_pause\<close> changes something (it writes its packet, and does
  nothing else) exactly when a current song exists, its playback state is above STOPPED
  and its pause-allowed flag is set; \<open>native_midi_resume\<close> changes something only when
  a current song exists and its playback state is PAUSED. In every other case the call
  leaves the machine as it was, so no packet is written.
\<close>

theorem pause_resume_preconditions:
  "(native_midi_pause r cs \<noteq> cs \<longleftrightarrow>
      (\<exists>m. cs = Some m \<and> state_val (playerstate (song m)) > state_val NATIVE_MIDI_STOPPED
            \<and> allow_pause (song m)))
   \<and> (native_midi_resume r cs \<noteq> cs \<longrightarrow>
      (\<exists>m. cs = Some m \<and> playerstate (song m) = NATIVE_MIDI_PAUSED))
   \<and> (\<forall>m. cs = Some m \<and> native_midi_pause r cs \<noteq> cs \<longrightarrow>
        native_midi_pause r cs = Some (sock_write pkt_thread_cmd_pause r m))
   \<and> (\<forall>m. cs = Some m \<and> native_midi_resume r cs \<noteq> cs \<longrightarrow>
        native_midi_resume r cs = Some (sock_write pkt_thread_cmd_resume r m))"
proof (cases cs)
  case None
  then show ?thesis by (simp add: native_midi_pause_def native_midi_resume_def)
next
  case (Some m)
  have "0 < state_val (playerstate (song m)) \<longleftrightarrow> playerstate (song m) \<noteq> NATIVE_MIDI_STOPPED"
    by (cases "playerstate (song m)") simp_all
  with Some show ?thesis
    by (auto simp: native_midi_pause_def native_midi_resume_def sock_write_neq)
qed

theorem pause_resume_preconditions_witness:
  "native_midi_pause 2 (Some demo_playing) = Some (sock_write pkt_thread_cmd_pause 2 demo_playing)
   \<and> native_midi_resume 2 (Some demo_paused) = Some (sock_write pkt_thread_cmd_resume 2 demo_paused)"
proof -
  have p: "state_val (playerstate (song demo_playing)) > state_val NATIVE_MIDI_STOPPED"
          "allow_pause (song demo_playing)"
    by (simp_all add: demo_playing_def demo_machine_def demo_song_def)
  have q: "playerstate (song demo_paused) = NATIVE_MIDI_PAUSED" "allow_pause (song demo_paused)"
    by (simp_all add: demo_paused_def demo_machine_def demo_song_def)
  have r: "native_midi_resume 2 (Some demo_paused) \<noteq> Some demo_paused"
    using q by (simp add: native_midi_resume_def sock_write_neq)
  from p have "native_midi_pause 2 (Some demo_playing) \<noteq> Some demo_playing"
    using pause_resume_preconditions [of 2 "Some demo_playing"] by blast
  then have "native_midi_pause 2 (Some demo_playing) = Some (sock_write pkt_thread_cmd_pause 2 demo_playing)"
    using pause_resume_preconditions [of 2 "Some demo_playing"] by blast
  moreover have "native_midi_resume 2 (Some demo_paused) = Some (sock_write pkt_thread_cmd_resume 2 demo_paused)"
    using r pause_resume_preconditions [of 2 "Some demo_paused"] by blast
  ultimately show ?thesis by blast
qed

text \<open>
  Claim C10. \<open>native_midi_setvolume\<close> writes a SETVOL packet exactly when a current song
  exists and its playback state is PLAYING. In the states STOPPED, STARTING and PAUSED the
  call leaves the machine as it was: the requested volume is kept nowhere, so a request
  made while paused is dropped.
\<close>

theorem setvolume_precondition:
  "(native_midi_setvolume r v cs \<noteq> cs \<longleftrightarrow>
      (\<exists>m. cs = Some m \<and> playerstate (song m) = NATIVE_MIDI_PLAYING))
   \<and> (\<forall>m. cs = Some m \<and> playerstate (song m) = NATIVE_MIDI_PLAYING \<longrightarrow>
        (\<exists>b. native_midi_setvolume r v cs = Some (sock_write (THREAD_CMD_SETVOL, b) r m)))
   \<and> (\<forall>m. cs = Some m \<and> playerstate (song m) \<in>
             {NATIVE_MIDI_STOPPED, NATIVE_MIDI_STARTING, NATIVE_MIDI_PAUSED} \<longrightarrow>
        native_midi_setvolume r v cs = Some m)"
  by (cases cs) (auto simp: native_midi_setvolume_def sock_write_neq)

theorem setvolume_precondition_witness:
  "native_midi_setvolume 2 50 (Some demo_playing) \<noteq> Some demo_playing
   \<and> native_midi_setvolume 2 50 (Some demo_paused) = Some demo_paused"
proof -
  have p: "playerstate (song demo_playing) = NATIVE_MIDI_PLAYING"
    by (simp add: demo_playing_def demo_machine_def demo_song_def)
  have q: "playerstate (song demo_paused) = NATIVE_MIDI_PAUSED"
    by (simp add: demo_paused_def demo_machine_def demo_song_def)
  from p have "native_midi_setvolume 2 50 (Some demo_playing) \<noteq> Some demo_playing"
    using setvolume_precondition [of 2 50 "Some demo_playing"] by blast
  moreover from q have "native_midi_setvolume 2 50 (Some demo_paused) = Some demo_paused"
    using setvolume_precondition [of 2 50 "Some demo_paused"] by blast
  ultimately show ?thesis by blast
qed

lemma thread_step_RETURNED: "thread m = RETURNED \<Longrightarrow> thread_step i m = m"
  by (cases i) simp_all

lemma fold_thread_step_RETURNED: "thread m = RETURNED \<Longrightarrow> fold thread_step ins m = m"
  by (induction ins) (simp_all add: thread_step_RETURNED)

lemma SDL_WaitThread_RETURNED:
  "thread m = RETURNED \<Longrightarrow> SDL_WaitThread t ins m = emit [WAIT_THREAD t] m"
  by (simp add: SDL_WaitThread_def fold_thread_step_RETURNED)

section \<open>Failed writes on the control channel\<close>

text \<open>
  Claim C7. Let the \<open>write\<close> on the main socket fail, that is, return anything but the
  packet length. \<open>native_midi_pause\<close>, \<open>native_midi_resume\<close> and
  \<open>native_midi_setvolume\<close> still return, and all they leave behind is the attempted
  write: nothing reaches the channel and the song is unchanged. \<open>native_midi_start\<close> on
  a song with a thread handle whose current state is above STOPPED, and
  \<open>native_midi_stop\<close> in the same situation, return right after the failed write of the
  QUIT packet: the trace has no \<open>WAIT_THREAD\<close>, so no join is attempted, and
  \<open>native_midi_start\<close> neither writes the playback state nor creates a thread.
\<close>

theorem control_send_failure:
  assumes "r \<noteq> CMD_PKT_LEN"
  shows "native_midi_pause r (Some m) =
           Some (if playerstate (song m) = NATIVE_MIDI_STOPPED \<or> \<not> allow_pause (song m) then m
                 else emit [SOCK_WRITE pkt_thread_cmd_pause r] m)
       \<and> native_midi_resume r (Some m) =
           Some (if playerstate (song m) \<noteq> NATIVE_MIDI_PAUSED \<or> \<not> allow_pause (song m) then m
                 else emit [SOCK_WRITE pkt_thread_cmd_resume r] m)
       \<and> native_midi_setvolume r v (Some m) =
           Some (if playerstate (song m) \<noteq> NATIVE_MIDI_PLAYING then m
                 else emit [SOCK_WRITE (THREAD_CMD_SETVOL, word_of_int (clamp_volume v)) r] m)
       \<and> (\<forall>t. playerthread (song m) = Some t \<and> state_val cur > state_val NATIVE_MIDI_STOPPED \<longrightarrow>
            native_midi_start ins r created cur loops (Some m) =
              RETURNS (Some (emit [SOCK_WRITE pkt_thread_cmd_quit r] m)))
       \<and> (\<forall>t. playerthread (song m) = Some t \<and>
                state_val (playerstate (song m)) > state_val NATIVE_MIDI_STOPPED \<longrightarrow>
            native_midi_stop ins r (Some m) =
              RETURNS (Some (emit [SOCK_WRITE pkt_thread_cmd_quit r] m)))"
  using assms
  by (simp add: native_midi_pause_def native_midi_resume_def native_midi_setvolume_def
        native_midi_start_def native_midi_stop_def sock_write_def)

theorem control_send_failure_witness:
  "native_midi_pause (- 1) (Some demo_playing) =
     Some (emit [SOCK_WRITE pkt_thread_cmd_pause (- 1)] demo_playing)
   \<and> native_midi_start [] (- 1) (Some 2) NATIVE_MIDI_PLAYING 0 (Some demo_playing) =
       RETURNS (Some (emit [SOCK_WRITE pkt_thread_cmd_quit (- 1)] demo_playing))
   \<and> native_midi_stop [] (- 1) (Some demo_playing) =
       RETURNS (Some (emit [SOCK_WRITE pkt_thread_cmd_quit (- 1)] demo_playing))"
proof -
  have r: "(- 1 :: int) \<noteq> CMD_PKT_LEN" by (simp add: CMD_PKT_LEN_def)
  have s: "playerthread (song demo_playing) = Some 1"
          "playerstate (song demo_playing) = NATIVE_MIDI_PLAYING"
          "allow_pause (song demo_playing)"
    by (simp_all add: demo_playing_def demo_machine_def demo_song_def)
  have v: "state_val NATIVE_MIDI_PLAYING > state_val NATIVE_MIDI_STOPPED" by simp
  note c = control_send_failure [OF r, of demo_playing 0 NATIVE_MIDI_PLAYING "[]" "Some 2" 0]
  have 1: "native_midi_pause (- 1) (Some demo_playing) =
     Some (emit [SOCK_WRITE pkt_thread_cmd_pause (- 1)] demo_playing)"
    using c s by simp
  have 2: "native_midi_start [] (- 1) (Some 2) NATIVE_MIDI_PLAYING 0 (Some demo_playing) =
       RETURNS (Some (emit [SOCK_WRITE pkt_thread_cmd_quit (- 1)] demo_playing))"
    using c s v by blast
  have 3: "native_midi_stop [] (- 1) (Some demo_playing) =
       RETURNS (Some (emit [SOCK_WRITE pkt_thread_cmd_quit (- 1)] demo_playing))"
    using c s v by (simp del: state_val.simps) 
  from 1 2 3 show ?thesis by blast
qed

section \<open>Stopping a song that is already stopped\<close>

text \<open>
  Claim C3, as amended. When the playback state of the current song is STOPPED,
  \<open>native_midi_stop\<close> writes no QUIT packet. Without a thread handle the call changes
  nothing. With the handle of a thread that has returned, the call joins it, which
  returns at once, and clears the handle; in general, with a thread handle, the outcome of
  the call is the outcome of the join.
\<close>

theorem stop_when_stopped:
  assumes "playerstate (song m) = NATIVE_MIDI_STOPPED"
  shows "(playerthread (song m) = None \<longrightarrow> native_midi_stop ins r (Some m) = RETURNS (Some m))
       \<and> (\<forall>t. playerthread (song m) = Some t \<and> thread m = RETURNED \<longrightarrow>
            native_midi_stop ins r (Some m) =
              RETURNS (Some ((emit [WAIT_THREAD t] m)\<lparr>song := (song m)\<lparr>playerthread := None\<rparr>\<rparr>)))
       \<and> (\<forall>t. playerthread (song m) = Some t \<longrightarrow>
            native_midi_stop ins r (Some m) =
              (let m2 = SDL_WaitThread t ins m
               in if thread m2 = RETURNED
                  then RETURNS (Some (m2\<lparr>song := (song m2)\<lparr>playerthread := None\<rparr>\<rparr>))
                  else BLOCKS m2))"
  using assms
  by (simp add: native_midi_stop_def SDL_WaitThread_RETURNED)

theorem stop_when_stopped_witness:
  "native_midi_stop [] 2 (Some demo_machine) = RETURNS (Some demo_machine)
   \<and> native_midi_stop [] 2 (Some demo_ended) =
       RETURNS (Some ((emit [WAIT_THREAD 1] demo_ended)\<lparr>song := (song demo_ended)\<lparr>playerthread := None\<rparr>\<rparr>))"
proof -
  have a: "playerstate (song demo_machine) = NATIVE_MIDI_STOPPED" "playerthread (song demo_machine) = None"
    by (simp_all add: demo_machine_def demo_song_def)
  have b: "playerstate (song demo_ended) = NATIVE_MIDI_STOPPED" "playerthread (song demo_ended) = Some 1"
          "thread demo_ended = RETURNED"
    by (simp_all add: demo_ended_def demo_machine_def demo_song_def)
  from stop_when_stopped [OF a(1), of "[]" 2] a(2)
  have 1: "native_midi_stop [] 2 (Some demo_machine) = RETURNS (Some demo_machine)" by blast
  from stop_when_stopped [OF b(1), of "[]" 2] b(2,3)
  have 2: "native_midi_stop [] 2 (Some demo_ended) =
       RETURNS (Some ((emit [WAIT_THREAD 1] demo_ended)\<lparr>song := (song demo_ended)\<lparr>playerthread := None\<rparr>\<rparr>))"
    by blast
  from 1 2 show ?thesis by blast
qed

text \<open>
  The claim C3 as it is stated fails for a song whose session ended by itself and has not
  been joined: its state is STOPPED, and \<open>native_midi_stop\<close> joins the thread and
  clears the handle.
\<close>

theorem stop_when_stopped_counterexample:
  "playerstate (song demo_ended) = NATIVE_MIDI_STOPPED
   \<and> native_midi_stop [] 2 (Some demo_ended) \<noteq> RETURNS (Some demo_ended)
   \<and> native_midi_stop [] 2 (Some demo_ended) =
       RETURNS (Some ((emit [WAIT_THREAD 1] demo_ended)\<lparr>song := (song demo_ended)\<lparr>playerthread := None\<rparr>\<rparr>))"
proof -
  have b: "playerstate (song demo_ended) = NATIVE_MIDI_STOPPED" "playerthread (song demo_ended) = Some 1"
          "thread demo_ended = RETURNED"
    by (simp_all add: demo_ended_def demo_machine_def demo_song_def)
  have 2: "native_midi_stop [] 2 (Some demo_ended) =
       RETURNS (Some ((emit [WAIT_THREAD 1] demo_ended)\<lparr>song := (song demo_ended)\<lparr>playerthread := None\<rparr>\<rparr>))"
    using b by (simp add: native_midi_stop_def SDL_WaitThread_RETURNED)
  have "trace ((emit [WAIT_THREAD 1] demo_ended)\<lparr>song := (song demo_ended)\<lparr>playerthread := None\<rparr>\<rparr>)
        \<noteq> trace demo_ended" by simp
  then have 3: "(emit [WAIT_THREAD 1] demo_ended)\<lparr>song := (song demo_ended)\<lparr>playerthread := None\<rparr>\<rparr> \<noteq> demo_ended"
    by metis
  from b(1) 2 3 show ?thesis by simp
qed

lemma emit_locals [simp]:
  "current_volume (emit as m) = current_volume m"
  "playback_finished (emit as m) = playback_finished m"
  "event (emit as m) = event m"
  "evt (emit as m) = evt m"
  "queue (emit as m) = queue m"
  "pollout (emit as m) = pollout m"
  by (simp_all add: emit_def)

section \<open>Translation of events\<close>

lemma or_push_bit_small:
  fixes a b :: int
  assumes "0 \<le> b" "b < 2 ^ n"
  shows "push_bit n a OR b = a * 2 ^ n + b"
proof -
  have "take_bit n b = b" using assms by (simp add: take_bit_int_eq_self)
  then have "push_bit n a OR b = concat_bit n b a"
    by (simp add: concat_bit_def or.commute)
  also have "\<dots> = take_bit n b + push_bit n a" by (rule concat_bit_eq)
  finally show ?thesis using \<open>take_bit n b = b\<close> by (simp add: push_bit_eq_mult)
qed

lemma uint_and_7F: "uint (d AND (0x7F::8 word)) = uint d mod 128"
proof -
  have "d AND 0x7F = take_bit 7 d" by (simp add: take_bit_eq_mask mask_eq_exp_minus_1)
  then have "uint (d AND 0x7F) = take_bit 7 (uint d)" by (simp only: unsigned_take_bit_eq)
  then show ?thesis by (simp add: take_bit_eq_mod)
qed

lemma pitchbend_value_eq:
  "pitchbend_value d0 d1 = uint d1 * 128 + uint d0 mod 128 - 8192"
proof -
  have "push_bit 7 (uint d1) OR uint d0 mod 128 = uint d1 * 2 ^ 7 + uint d0 mod 128"
    by (rule or_push_bit_small) simp_all
  then show ?thesis by (simp add: pitchbend_value_def uint_and_7F)
qed

lemma uint_tempo:
  fixes a b c :: "8 word"
  shows "uint (push_bit 16 (ucast a) OR push_bit 8 (ucast b) OR (ucast c :: 32 word))
         = uint a * 65536 + uint b * 256 + uint c"
proof -
  have ua: "uint a < 256" "uint b < 256" "uint c < 256"
    using uint_lt2p [of a] uint_lt2p [of b] uint_lt2p [of c] by simp_all
  have 3: "uint (ucast x :: 32 word) = uint x" for x :: "8 word"
    by (simp add: uint_up_ucast is_up)
  have 1: "uint (push_bit 16 (ucast a :: 32 word)) = push_bit 16 (uint a)"
    using ua by (simp add: push_bit_eq_mult uint_word_ariths 3)
  have 2: "uint (push_bit 8 (ucast b :: 32 word)) = push_bit 8 (uint b)"
    using ua by (simp add: push_bit_eq_mult uint_word_ariths 3)
  have 4: "push_bit 8 (uint b) OR uint c = uint b * 2 ^ 8 + uint c"
    by (rule or_push_bit_small) (use ua in simp_all)
  have 5: "push_bit 16 (uint a) OR (uint b * 2 ^ 8 + uint c) = uint a * 2 ^ 16 + (uint b * 2 ^ 8 + uint c)"
    by (rule or_push_bit_small) (use ua in simp_all)
  have "uint (push_bit 16 (ucast a) OR push_bit 8 (ucast b) OR (ucast c :: 32 word))
        = push_bit 16 (uint a) OR (push_bit 8 (uint b) OR uint c)"
    by (simp only: uint_or 1 2 3 or.assoc)
  also have "\<dots> = push_bit 16 (uint a) OR (uint b * 2 ^ 8 + uint c)" by (simp only: 4)
  also have "\<dots> = uint a * 2 ^ 16 + (uint b * 2 ^ 8 + uint c)" by (rule 5)
  finally show ?thesis by simp
qed

lemma tempo_value_uint:
  "uint (tempo_value [a, b, c]) = uint a * 65536 + uint b * 256 + uint c"
  by (simp add: tempo_value_def uint_tempo)

lemmas midi_cmd_defs =
  MIDI_CMD_NOTE_ON_def MIDI_CMD_NOTE_OFF_def MIDI_CMD_CONTROL_def MIDI_CMD_NOTE_PRESSURE_def
  MIDI_CMD_PGM_CHANGE_def MIDI_CMD_BENDER_def

lemmas ev_set_defs =
  snd_seq_ev_set_noteon_def snd_seq_ev_set_noteoff_def snd_seq_ev_set_controller_def
  snd_seq_ev_set_keypress_def snd_seq_ev_set_pgmchange_def snd_seq_ev_set_pitchbend_def
  snd_seq_ev_set_queue_tempo_def snd_seq_ev_schedule_tick_def snd_seq_ev_set_dest_def

lemma translate_channel_voice:
  assumes "status e AND 0xF0 \<in> {MIDI_CMD_NOTE_ON, MIDI_CMD_NOTE_OFF, MIDI_CMD_CONTROL,
                                   MIDI_CMD_NOTE_PRESSURE, MIDI_CMD_PGM_CHANGE, MIDI_CMD_BENDER}"
  shows "fst (translate s q e ev0) = False"
    and "ev_dest (snd (translate s q e ev0)) = dstaddr s"
    and "ev_sched (snd (translate s q e ev0)) = SCHED_TICK q (time e)"
  using assms by (auto simp: translate_def Let_def midi_cmd_defs ev_set_defs)

lemma meta_nibble: "status e = MIDI_SMF_META_EVENT \<Longrightarrow> status e AND 0xF0 = 0xF0"
  by (simp add: MIDI_SMF_META_EVENT_def)

text \<open>
  Claim C6. When the sequencer can take output and the cursor is at an event whose status
  nibble is the pitch-bend command, the translation step gives the sequencer a pitch-bend
  event for the event's channel whose value is \<open>data[1] * 128 + (data[0] mod 128) - 8192\<close>:
  the second data byte above the low seven bits of the first, less 8192. The event goes to
  the destination of the song at the event's tick on the session's queue. For a data byte
  \<open>data[1]\<close> of seven bits (below \<open>0x80\<close>, as MIDI data bytes are) the value is a
  zero-centred 14-bit quantity, between -8192 and 8191; the source masks \<open>data[0]\<close> only.
\<close>

theorem pitch_bend_translation:
  assumes "status e AND 0xF0 = MIDI_CMD_BENDER" and "event m = e # rest" and "seq_pollout w"
  shows "\<exists>m'. send_event w m = (CONTINUE, m')
           \<and> trace m' = trace m @ EVENT_OUTPUT (evt m') (output_ret w)
                                # (if output_ret w \<noteq> - EAGAIN then [DBG_LOG False e] else [])
           \<and> event m' = (if output_ret w \<noteq> - EAGAIN then rest else e # rest)
           \<and> ev_data (evt m') =
               EV_PITCHBEND (status e AND 0x0F) (uint (data1 e) * 128 + uint (data0 e) mod 128 - 8192)
           \<and> ev_dest (evt m') = dstaddr (song m)
           \<and> ev_sched (evt m') = SCHED_TICK (queue m) (time e)
           \<and> (data1 e < 0x80 \<longrightarrow>
                - 8192 \<le> uint (data1 e) * 128 + uint (data0 e) mod 128 - 8192
                \<and> uint (data1 e) * 128 + uint (data0 e) mod 128 - 8192 \<le> 8191)"
proof -
  have t: "translate (song m) (queue m) e (evt m) =
             (False, snd_seq_ev_set_pitchbend (status e AND 0x0F) (pitchbend_value (data0 e) (data1 e))
                       (snd_seq_ev_schedule_tick (queue m) (time e)
                          (snd_seq_ev_set_dest (dstaddr (song m)) (evt m))))"
    using assms(1)
    by (simp add: translate_def Let_def midi_cmd_defs)
  have r: "data1 e < 0x80 \<longrightarrow>
                - 8192 \<le> uint (data1 e) * 128 + uint (data0 e) mod 128 - 8192
                \<and> uint (data1 e) * 128 + uint (data0 e) mod 128 - 8192 \<le> 8191"
  proof
    assume "data1 e < 0x80"
    then have "uint (data1 e) < 128" by (simp add: word_less_def)
    moreover have "0 \<le> uint (data1 e)" by simp
    moreover have "0 \<le> uint (data0 e) mod 128" "uint (data0 e) mod 128 < 128" by simp_all
    ultimately show "- 8192 \<le> uint (data1 e) * 128 + uint (data0 e) mod 128 - 8192
                \<and> uint (data1 e) * 128 + uint (data0 e) mod 128 - 8192 \<le> 8191"
      by linarith
  qed
  show ?thesis
    using assms(2,3) r
    by (simp add: send_event_def t pitchbend_value_eq snd_seq_ev_set_pitchbend_def
          snd_seq_ev_schedule_tick_def snd_seq_ev_set_dest_def)
qed

theorem pitch_bend_translation_witness:
  "\<exists>m'. send_event send_wake (demo_playing\<lparr>event := [demo_bend]\<rparr>) = (CONTINUE, m')
         \<and> ev_data (evt m') = EV_PITCHBEND 3 8191"
proof -
  have a: "status demo_bend AND 0xF0 = MIDI_CMD_BENDER"
    by (simp add: demo_bend_def MIDI_CMD_BENDER_def)
  have b: "event (demo_playing\<lparr>event := [demo_bend]\<rparr>) = demo_bend # []" by simp
  have c: "seq_pollout send_wake" by (simp add: send_wake_def)
  have d: "status demo_bend AND 0x0F = 3" "uint (data1 demo_bend) * 128 + uint (data0 demo_bend) mod 128 - 8192 = 8191"
    by (simp_all add: demo_bend_def)
  from pitch_bend_translation [OF a b c] obtain m' where
    "send_event send_wake (demo_playing\<lparr>event := [demo_bend]\<rparr>) = (CONTINUE, m')"
    "ev_data (evt m') =
               EV_PITCHBEND (status demo_bend AND 0x0F) (uint (data1 demo_bend) * 128 + uint (data0 demo_bend) mod 128 - 8192)"
    by blast
  with d show ?thesis by simp
qed

text \<open>
  Claim C5. When the sequencer can take output and the cursor is at a meta event
  (status \<open>0xFF\<close>) of type \<open>0x51\<close>: with exactly three extra bytes the step gives
  \<open>snd_seq_event_output\<close> a tempo event for the session's queue, addressed to the
  transport's timer instead of the song's destination, scheduled at the event's tick, whose
  value is the big-endian number \<open>extraData[0] * 65536 + extraData[1] * 256 + extraData[2]\<close>;
  the cursor advances unless the call answers \<open>-EAGAIN\<close>. With any other count of extra
  bytes the event is unhandled: the only action is the debug line that says so, no output
  call is made, and the cursor advances. And whatever the sequencer event held before (the
  timer address of a tempo event, say), a step at a channel-voice event sends it to the
  destination of the song.
\<close>

theorem meta_tempo_translation:
  assumes "status e = MIDI_SMF_META_EVENT" and "data0 e = MIDI_SMF_META_TEMPO"
      and "event m = e # rest" and "seq_pollout w"
  shows "(extraLen e = 3 \<longrightarrow>
           (\<exists>m'. send_event w m = (CONTINUE, m')
              \<and> trace m' = trace m @ EVENT_OUTPUT (evt m') (output_ret w)
                                   # (if output_ret w \<noteq> - EAGAIN then [DBG_LOG False e] else [])
              \<and> event m' = (if output_ret w \<noteq> - EAGAIN then rest else e # rest)
              \<and> ev_data (evt m') = EV_TEMPO (queue m) (tempo_value (extraData e))
              \<and> ev_dest (evt m') = system_timer
              \<and> ev_sched (evt m') = SCHED_TICK (queue m) (time e)
              \<and> (\<forall>a b c. extraData e = [a, b, c] \<longrightarrow>
                    uint (tempo_value (extraData e)) = uint a * 65536 + uint b * 256 + uint c)))
       \<and> (extraLen e \<noteq> 3 \<longrightarrow>
           (\<exists>m'. send_event w m = (CONTINUE, m')
              \<and> trace m' = trace m @ [DBG_LOG True e]
              \<and> event m' = rest))
       \<and> (\<forall>w2 m2 e2 rest2.
             seq_pollout w2 \<and> event m2 = e2 # rest2
             \<and> status e2 AND 0xF0 \<in> {MIDI_CMD_NOTE_ON, MIDI_CMD_NOTE_OFF, MIDI_CMD_CONTROL,
                                      MIDI_CMD_NOTE_PRESSURE, MIDI_CMD_PGM_CHANGE, MIDI_CMD_BENDER}
             \<longrightarrow> (\<exists>r2. EVENT_OUTPUT (evt (snd (send_event w2 m2))) r2 \<in> set (trace (snd (send_event w2 m2))))
                 \<and> ev_dest (evt (snd (send_event w2 m2))) = dstaddr (song m2))"
proof -
  have n: "status e AND 0xF0 = 0xF0" using assms(1) by (rule meta_nibble)
  have t3: "extraLen e = 3 \<Longrightarrow> translate (song m) (queue m) e (evt m) =
             (False, snd_seq_ev_set_queue_tempo (queue m) (tempo_value (extraData e))
                       (snd_seq_ev_schedule_tick (queue m) (time e)
                          (snd_seq_ev_set_dest (dstaddr (song m)) (evt m))))"
    using assms(1,2) n
    by (simp add: translate_def Let_def midi_cmd_defs)
  have tn: "extraLen e \<noteq> 3 \<Longrightarrow> fst (translate (song m) (queue m) e (evt m)) = True"
    using assms(1,2) n
    by (simp add: translate_def Let_def midi_cmd_defs)
  have 1: "extraLen e = 3 \<longrightarrow>
           (\<exists>m'. send_event w m = (CONTINUE, m')
              \<and> trace m' = trace m @ EVENT_OUTPUT (evt m') (output_ret w)
                                   # (if output_ret w \<noteq> - EAGAIN then [DBG_LOG False e] else [])
              \<and> event m' = (if output_ret w \<noteq> - EAGAIN then rest else e # rest)
              \<and> ev_data (evt m') = EV_TEMPO (queue m) (tempo_value (extraData e))
              \<and> ev_dest (evt m') = system_timer
              \<and> ev_sched (evt m') = SCHED_TICK (queue m) (time e)
              \<and> (\<forall>a b c. extraData e = [a, b, c] \<longrightarrow>
                    uint (tempo_value (extraData e)) = uint a * 65536 + uint b * 256 + uint c))"
    using assms(3,4)
    by (auto simp: send_event_def t3 snd_seq_ev_set_queue_tempo_def snd_seq_ev_schedule_tick_def
          snd_seq_ev_set_dest_def tempo_value_uint)
  have 2: "extraLen e \<noteq> 3 \<longrightarrow>
           (\<exists>m'. send_event w m = (CONTINUE, m')
              \<and> trace m' = trace m @ [DBG_LOG True e]
              \<and> event m' = rest)"
  proof
    assume "extraLen e \<noteq> 3"
    from tn [OF this] obtain ev where "translate (song m) (queue m) e (evt m) = (True, ev)"
      by (cases "translate (song m) (queue m) e (evt m)") simp
    then show "\<exists>m'. send_event w m = (CONTINUE, m')
              \<and> trace m' = trace m @ [DBG_LOG True e]
              \<and> event m' = rest"
      using assms(3,4) by (simp add: send_event_def)
  qed
  have 3: "(\<exists>r2. EVENT_OUTPUT (evt (snd (send_event w2 m2))) r2 \<in> set (trace (snd (send_event w2 m2))))
           \<and> ev_dest (evt (snd (send_event w2 m2))) = dstaddr (song m2)"
    if h: "seq_pollout w2 \<and> event m2 = e2 # rest2
             \<and> status e2 AND 0xF0 \<in> {MIDI_CMD_NOTE_ON, MIDI_CMD_NOTE_OFF, MIDI_CMD_CONTROL,
                                      MIDI_CMD_NOTE_PRESSURE, MIDI_CMD_PGM_CHANGE, MIDI_CMD_BENDER}"
    for w2 m2 e2 rest2
  proof -
    from h have c: "status e2 AND 0xF0 \<in> {MIDI_CMD_NOTE_ON, MIDI_CMD_NOTE_OFF, MIDI_CMD_CONTROL,
                                      MIDI_CMD_NOTE_PRESSURE, MIDI_CMD_PGM_CHANGE, MIDI_CMD_BENDER}"
      by blast
    obtain ev where t: "translate (song m2) (queue m2) e2 (evt m2) = (False, ev)"
      and d: "ev_dest ev = dstaddr (song m2)"
      using translate_channel_voice(1,2) [OF c, of "song m2" "queue m2" "evt m2"]
      by (cases "translate (song m2) (queue m2) e2 (evt m2)") simp
    show ?thesis using h t d by (auto simp: send_event_def Let_def)
  qed
  from 1 2 3 show ?thesis by blast
qed

theorem meta_tempo_translation_witness:
  "(\<exists>m'. send_event send_wake (demo_playing\<lparr>event := [demo_tempo]\<rparr>) = (CONTINUE, m')
          \<and> ev_data (evt m') = EV_TEMPO 0 (tempo_value [0x07, 0xA1, 0x20])
          \<and> ev_dest (evt m') = system_timer)
   \<and> uint (tempo_value [0x07, 0xA1, 0x20]) = 500000
   \<and> (\<exists>m'. send_event send_wake (demo_playing\<lparr>event := [demo_bad_tempo]\<rparr>) = (CONTINUE, m')
          \<and> trace m' = trace demo_playing @ [DBG_LOG True demo_bad_tempo]
          \<and> event m' = [])
   \<and> ev_dest (evt (snd (send_event send_wake
         (demo_playing\<lparr>evt := snd_seq_ev_set_queue_tempo 0 500000 snd_seq_ev_clear,
                        event := [demo_note]\<rparr>)))) = \<lparr>client = 14, port = 0\<rparr>"
proof -
  have p: "seq_pollout send_wake" by (simp add: send_wake_def)
  have q: "queue demo_playing = 0" "dstaddr (song demo_playing) = \<lparr>client = 14, port = 0\<rparr>"
    by (simp_all add: demo_playing_def demo_machine_def demo_song_def)
  have g: "status demo_tempo = MIDI_SMF_META_EVENT" "data0 demo_tempo = MIDI_SMF_META_TEMPO"
          "extraLen demo_tempo = 3" "extraData demo_tempo = [0x07, 0xA1, 0x20]"
    by (simp_all add: demo_tempo_def MIDI_SMF_META_EVENT_def MIDI_SMF_META_TEMPO_def)
  have b: "status demo_bad_tempo = MIDI_SMF_META_EVENT" "data0 demo_bad_tempo = MIDI_SMF_META_TEMPO"
          "extraLen demo_bad_tempo \<noteq> 3"
    by (simp_all add: demo_bad_tempo_def MIDI_SMF_META_EVENT_def MIDI_SMF_META_TEMPO_def)
  have n: "status demo_note AND 0xF0 \<in> {MIDI_CMD_NOTE_ON, MIDI_CMD_NOTE_OFF, MIDI_CMD_CONTROL,
                                      MIDI_CMD_NOTE_PRESSURE, MIDI_CMD_PGM_CHANGE, MIDI_CMD_BENDER}"
    by (simp add: demo_note_def MIDI_CMD_NOTE_ON_def)
  have eg: "event (demo_playing\<lparr>event := [demo_tempo]\<rparr>) = demo_tempo # []" by simp
  have eb: "event (demo_playing\<lparr>event := [demo_bad_tempo]\<rparr>) = demo_bad_tempo # []" by simp
  note G = meta_tempo_translation [OF g(1) g(2) eg p]
  note B = meta_tempo_translation [OF b(1) b(2) eb p]
  from G g(3) obtain m1 where m1:
    "send_event send_wake (demo_playing\<lparr>event := [demo_tempo]\<rparr>) = (CONTINUE, m1)"
    "ev_data (evt m1) = EV_TEMPO (queue (demo_playing\<lparr>event := [demo_tempo]\<rparr>)) (tempo_value (extraData demo_tempo))"
    "ev_dest (evt m1) = system_timer"
    "\<forall>a b c. extraData demo_tempo = [a, b, c] \<longrightarrow>
        uint (tempo_value (extraData demo_tempo)) = uint a * 65536 + uint b * 256 + uint c"
    by blast
  from m1(4) g(4) have u: "uint (tempo_value [0x07, 0xA1, 0x20]) = 500000" by simp
  from m1 g(4) q(1) have 1: "\<exists>m'. send_event send_wake (demo_playing\<lparr>event := [demo_tempo]\<rparr>) = (CONTINUE, m')
          \<and> ev_data (evt m') = EV_TEMPO 0 (tempo_value [0x07, 0xA1, 0x20])
          \<and> ev_dest (evt m') = system_timer"
    by simp
  from B b(3) obtain m2 where
    "send_event send_wake (demo_playing\<lparr>event := [demo_bad_tempo]\<rparr>) = (CONTINUE, m2)"
    "trace m2 = trace (demo_playing\<lparr>event := [demo_bad_tempo]\<rparr>) @ [DBG_LOG True demo_bad_tempo]"
    "event m2 = []"
    by blast
  then have 2: "\<exists>m'. send_event send_wake (demo_playing\<lparr>event := [demo_bad_tempo]\<rparr>) = (CONTINUE, m')
          \<and> trace m' = trace demo_playing @ [DBG_LOG True demo_bad_tempo]
          \<and> event m' = []"
    by simp
  have "seq_pollout send_wake \<and> event (demo_playing\<lparr>evt := snd_seq_ev_set_queue_tempo 0 500000 snd_seq_ev_clear,
                        event := [demo_note]\<rparr>) = demo_note # []
        \<and> status demo_note AND 0xF0 \<in> {MIDI_CMD_NOTE_ON, MIDI_CMD_NOTE_OFF, MIDI_CMD_CONTROL,
                                      MIDI_CMD_NOTE_PRESSURE, MIDI_CMD_PGM_CHANGE, MIDI_CMD_BENDER}"
    using p n by simp
  with G have "ev_dest (evt (snd (send_event send_wake
         (demo_playing\<lparr>evt := snd_seq_ev_set_queue_tempo 0 500000 snd_seq_ev_clear,
                        event := [demo_note]\<rparr>)))) =
       dstaddr (song (demo_playing\<lparr>evt := snd_seq_ev_set_queue_tempo 0 500000 snd_seq_ev_clear,
                        event := [demo_note]\<rparr>))"
    by blast
  with q(2) have 3: "ev_dest (evt (snd (send_event send_wake
         (demo_playing\<lparr>evt := snd_seq_ev_set_queue_tempo 0 500000 snd_seq_ev_clear,
                        event := [demo_note]\<rparr>)))) = \<lparr>client = 14, port = 0\<rparr>"
    by simp
  from 1 u 2 3 show ?thesis by blast
qed

section \<open>The setup of a session\<close>

lemma output_retry_replicate:
  "r \<noteq> - EAGAIN \<Longrightarrow>
   output_retry ev (replicate n (- EAGAIN) @ r # rest) =
     Some (replicate n (EVENT_OUTPUT ev (- EAGAIN)) @ [EVENT_OUTPUT ev r])"
  by (induction n) simp_all

lemma output_retry_all_eagain:
  "(\<forall>r \<in> set rs. r = - EAGAIN) \<Longrightarrow> output_retry ev rs = None"
  by (induction rs) simp_all

lemma echo_event_fields:
  "ev_data (echo_event s q) = EV_ECHO"
  "ev_source (echo_event s q) = srcport s"
  "ev_dest (echo_event s q) = \<lparr>client = seq s, port = srcport s\<rparr>"
  "ev_sched (echo_event s q) = SCHED_TICK q (endtime s + 1)"
  by (simp_all add: echo_event_def snd_seq_ev_schedule_tick_def snd_seq_ev_set_dest_def
        snd_seq_ev_set_source_def snd_seq_ev_clear_def)

text \<open>
  Claim C2, as amended. The part of the thread before its loop does this, in this order:
  it allocates a queue and starts it; it takes the poll descriptors and switches the
  sequencer to non-blocking mode; it sets the queue's tempo to 500000 microseconds per
  quarter note and its resolution to the song's pulses per quarter note; it gives the echo
  event to \<open>snd_seq_event_output\<close>, again for each answer \<open>-EAGAIN\<close>, until another
  answer comes; and then it writes the state PLAYING. The echo is addressed to the session's
  own client and port and scheduled on the queue at tick \<open>endtime + 1\<close> (an addition of
  32-bit unsigned numbers). While every answer is \<open>-EAGAIN\<close> the setup does not end and
  the state is not written. \<open>endtime\<close> of a loaded song is the time of the last event
  of its list, which is not empty.
\<close>

theorem player_setup_order:
  assumes "r \<noteq> - EAGAIN"
  shows "(\<exists>m'. thread_setup q (replicate n (- EAGAIN) @ r # rest) m = Some m'
            \<and> trace m' = trace m @
                 [ALLOC_QUEUE q, START_QUEUE q, POLL_DESCRIPTORS, NONBLOCK True,
                  SET_QUEUE_TEMPO q 500000 (ppqn (song m))]
                 @ replicate n (EVENT_OUTPUT (echo_event (song m) q) (- EAGAIN))
                 @ [EVENT_OUTPUT (echo_event (song m) q) r, ATOMIC_SET NATIVE_MIDI_PLAYING]
            \<and> playerstate (song m') = NATIVE_MIDI_PLAYING)
       \<and> ev_data (echo_event (song m) q) = EV_ECHO
       \<and> ev_dest (echo_event (song m) q) = \<lparr>client = seq (song m), port = srcport (song m)\<rparr>
       \<and> ev_sched (echo_event (song m) q) = SCHED_TICK q (endtime (song m) + 1)
       \<and> ((\<forall>x \<in> set rs. x = - EAGAIN) \<longrightarrow> thread_setup q rs m = None)
       \<and> (\<forall>m0. native_midi_loadsong_RW ok evs pq opened dst hint = Some m0 \<longrightarrow>
             endtime (song m0) = time (last evs) \<and> evs \<noteq> [])"
proof -
  have 1: "\<exists>m'. thread_setup q (replicate n (- EAGAIN) @ r # rest) m = Some m'
            \<and> trace m' = trace m @
                 [ALLOC_QUEUE q, START_QUEUE q, POLL_DESCRIPTORS, NONBLOCK True,
                  SET_QUEUE_TEMPO q 500000 (ppqn (song m))]
                 @ replicate n (EVENT_OUTPUT (echo_event (song m) q) (- EAGAIN))
                 @ [EVENT_OUTPUT (echo_event (song m) q) r, ATOMIC_SET NATIVE_MIDI_PLAYING]
            \<and> playerstate (song m') = NATIVE_MIDI_PLAYING"
    using assms
    by (simp add: thread_setup_def Let_def enqueue_echo_event_def output_retry_replicate
          SDL_AtomicSet_def)
  have 2: "(\<forall>x \<in> set rs. x = - EAGAIN) \<longrightarrow> thread_setup q rs m = None"
    by (simp add: thread_setup_def Let_def enqueue_echo_event_def output_retry_all_eagain)
  have 3: "\<forall>m0. native_midi_loadsong_RW ok evs pq opened dst hint = Some m0 \<longrightarrow>
             endtime (song m0) = time (last evs) \<and> evs \<noteq> []"
    by (auto simp: native_midi_loadsong_RW_def end_time_def split: if_splits option.splits)
  from 1 2 3 show ?thesis by (simp add: echo_event_fields)
qed

theorem player_setup_order_witness:
  "(\<exists>m'. thread_setup 0 [- EAGAIN, 0] demo_machine = Some m'
         \<and> playerstate (song m') = NATIVE_MIDI_PLAYING)
   \<and> thread_setup 0 [- EAGAIN] demo_machine = None
   \<and> endtime (song demo_machine) = time (last (evtlist demo_song))"
proof -
  have r: "(0::int) \<noteq> - EAGAIN" by (simp add: EAGAIN_def)
  have l: "native_midi_loadsong_RW True (evtlist demo_song) 480 (Some (128, 0))
              \<lparr>client = 14, port = 0\<rparr> True = Some demo_machine"
    by (simp add: native_midi_loadsong_RW_def demo_machine_def demo_song_def end_time_def
          demo_tempo_def)
  have e: "\<forall>x \<in> set [- EAGAIN]. x = - EAGAIN" by simp
  note P = player_setup_order [OF r, where n = 1 and rest = "[]" and q = 0 and m = demo_machine
             and rs = "[- EAGAIN]" and ok = True and evs = "evtlist demo_song" and pq = 480
             and opened = "Some (128, 0)" and dst = "\<lparr>client = 14, port = 0\<rparr>" and hint = True]
  from P have 1: "\<exists>m'. thread_setup 0 [- EAGAIN, 0] demo_machine = Some m'
         \<and> playerstate (song m') = NATIVE_MIDI_PLAYING"
    by auto
  from P e have 2: "thread_setup 0 [- EAGAIN] demo_machine = None" by blast
  from P l have 3: "endtime (song demo_machine) = time (last (evtlist demo_song))" by blast
  from 1 2 3 show ?thesis by blast
qed

text \<open>
  The claim C2 as it is stated puts the switch to non-blocking mode after the write of
  PLAYING and has the first echo enqueued in blocking mode. On the demo song the switch
  is the fourth action of the setup, before the tempo, the echo and the write of PLAYING.
\<close>

theorem player_setup_order_counterexample:
  "map_option trace (thread_setup 0 [0] demo_machine) = Some (trace demo_machine @ demo_setup_trace)
   \<and> \<not> spec_setup_order demo_song 0 0 demo_setup_trace"
proof -
  have s: "song demo_machine = demo_song" by (simp add: demo_machine_def)
  have p: "ppqn demo_song = 480" by (simp add: demo_song_def)
  have r: "(0::int) \<noteq> - EAGAIN" by (simp add: EAGAIN_def)
  have "output_retry ev [0] = Some [EVENT_OUTPUT ev 0]" for ev
    using r by simp
  then have 1: "map_option trace (thread_setup 0 [0] demo_machine) =
                  Some (trace demo_machine @ demo_setup_trace)"
    by (simp add: thread_setup_def Let_def enqueue_echo_event_def SDL_AtomicSet_def s p
          demo_setup_trace_def)
  have a: "first_at (ATOMIC_SET NATIVE_MIDI_PLAYING) demo_setup_trace = 6"
    by (simp add: first_at_def demo_setup_trace_def)
  have b: "first_at (NONBLOCK True) demo_setup_trace = 3"
    by (simp add: first_at_def demo_setup_trace_def)
  from a b have 2: "\<not> spec_setup_order demo_song 0 0 demo_setup_trace"
    by (simp add: spec_setup_order_def)
  from 1 2 show ?thesis by blast
qed

section \<open>The volume of a session\<close>

lemma enqueue_echo_event_locals:
  "enqueue_echo_event rets m = Some m' \<Longrightarrow>
     current_volume m' = current_volume m \<and> song m' = song m \<and> event m' = event m
     \<and> playback_finished m' = playback_finished m \<and> queue m' = queue m \<and> chan m' = chan m
     \<and> thread m' = thread m"
  by (auto simp: enqueue_echo_event_def split: option.splits)

lemma enqueue_queue_reset_event_locals:
  "enqueue_queue_reset_event rets m = Some m' \<Longrightarrow>
     current_volume m' = current_volume m \<and> song m' = song m \<and> event m' = event m
     \<and> playback_finished m' = playback_finished m \<and> queue m' = queue m \<and> chan m' = chan m
     \<and> thread m' = thread m"
  by (auto simp: enqueue_queue_reset_event_def split: option.splits)

lemma restart_current_volume:
  "restart w m = Some m' \<Longrightarrow> current_volume m' = current_volume m"
  by (auto simp: restart_def split: option.splits
        dest!: enqueue_echo_event_locals enqueue_queue_reset_event_locals)

lemma send_event_current_volume:
  "send_event w m = (c, m') \<Longrightarrow> current_volume m' = current_volume m"
  by (auto simp: send_event_def Let_def split: if_splits list.splits prod.splits)

lemma read_command_current_volume:
  "0 < poll_ret w \<Longrightarrow>
   current_volume (read_command w m) = (case reads_setvol w of None \<Rightarrow> current_volume m | Some v \<Rightarrow> v)"
  by (auto simp: read_command_def reads_setvol_def handle_command_def send_volume_sysex_def
        stop_queue_def continue_queue_def SDL_AtomicSet_def
        THREAD_CMD_QUIT_def THREAD_CMD_SETVOL_def THREAD_CMD_PAUSE_def THREAD_CMD_RESUME_def
        split: option.splits)

lemma loop_body_current_volume:
  assumes "loop_body w m = (CONTINUE, m')"
  shows "current_volume m' = (case reads_setvol w of None \<Rightarrow> current_volume m | Some v \<Rightarrow> v)"
proof -
  from assms have p: "0 < poll_ret w"
    by (auto simp: loop_body_def split: if_splits)
  let ?m = "read_sequencer w (read_command w m)"
  have c: "current_volume ?m = (case reads_setvol w of None \<Rightarrow> current_volume m | Some v \<Rightarrow> v)"
    using read_command_current_volume [OF p, of m] by (simp add: read_sequencer_def)
  from assms p have
    "(\<exists>x. restart w ?m = Some x \<and> send_event w x = (CONTINUE, m'))
     \<or> m' = drain w ?m \<or> send_event w ?m = (CONTINUE, m')"
    by (simp add: loop_body_def Let_def split: if_splits option.splits)
  then have "current_volume m' = current_volume ?m"
  proof (elim disjE exE conjE)
    fix x
    assume "restart w ?m = Some x" "send_event w x = (CONTINUE, m')"
    then show ?thesis
      using restart_current_volume [of w ?m x] send_event_current_volume [of w x CONTINUE m']
      by simp
  next
    assume "m' = drain w ?m"
    then show ?thesis by (simp add: drain_def)
  next
    assume "send_event w ?m = (CONTINUE, m')"
    then show ?thesis by (rule send_event_current_volume)
  qed
  with c show ?thesis by simp
qed

lemma run_loop_current_volume:
  "run_loop ws m = (CONTINUE, m') \<Longrightarrow> current_volume m' = last_setvol ws (current_volume m)"
proof (induction ws arbitrary: m)
  case Nil
  then show ?case by simp
next
  case (Cons w ws)
  obtain c m1 where b: "loop_body w m = (c, m1)" by (cases "loop_body w m")
  with Cons.prems have c: "c = CONTINUE" by (cases c) simp_all
  with b Cons.prems have "run_loop ws m1 = (CONTINUE, m')" by simp
  then have "current_volume m' = last_setvol ws (current_volume m1)" by (rule Cons.IH)
  with loop_body_current_volume [of w m m1] b c show ?case by simp
qed

lemma thread_setup_current_volume:
  "thread_setup q rets m = Some m0 \<Longrightarrow> current_volume m0 = 0x7F"
  by (auto simp: thread_setup_def Let_def SDL_AtomicSet_def split: option.splits
        dest!: enqueue_echo_event_locals)

lemma thread_setup_Some:
  assumes "r \<noteq> - EAGAIN"
  shows "\<exists>m0. thread_setup q (r # rest) m = Some m0 \<and> event m0 = evtlist (song m)
              \<and> song m0 = (song m)\<lparr>playerstate := NATIVE_MIDI_PLAYING\<rparr>
              \<and> playback_finished m0 = False"
  using assms
  by (simp add: thread_setup_def Let_def enqueue_echo_event_def SDL_AtomicSet_def)

lemma handle_command_event:
  "fst pkt \<noteq> THREAD_CMD_QUIT \<Longrightarrow> event (handle_command pkt m) = event m"
  by (simp add: handle_command_def send_volume_sysex_def stop_queue_def continue_queue_def
        SDL_AtomicSet_def)

lemma loop_body_command_wake:
  assumes "event m \<noteq> []" and "fst pkt \<noteq> THREAD_CMD_QUIT"
  shows "\<exists>m'. loop_body (command_wake pkt) m = (CONTINUE, m') \<and> event m' = event m"
  using assms
  by (simp add: loop_body_def Let_def command_wake_def read_command_def read_sequencer_def
        send_event_def handle_command_event)

lemma clamp_volume_range: "0 \<le> clamp_volume v \<and> clamp_volume v \<le> 127"
  by (simp add: clamp_volume_def)

lemma uint_clamp_volume: "uint (word_of_int (clamp_volume v) :: 8 word) = clamp_volume v"
proof -
  have "0 \<le> clamp_volume v" "clamp_volume v < 2 ^ 8"
    using clamp_volume_range [of v] by simp_all
  then show ?thesis by (simp add: uint_word_of_int)
qed

text \<open>
  Claim C9. \<open>native_midi_setvolume\<close> sends, for every \<open>v\<close>, the operand \<open>v\<close> clamped
  to the range 0 to 127: 0 for a negative \<open>v\<close>, 127 for a \<open>v\<close> above 127, \<open>v\<close> itself
  otherwise. In a session, after any wakes \<open>ws\<close> that leave the loop running, the volume
  the thread holds is the operand of the last SETVOL packet it read, or 127 when it read
  none; a SETVOL packet sends its operand in the volume message and stores it; a PAUSE
  packet sends volume 0, stops the queue, writes PAUSED and leaves the stored volume alone;
  a RESUME packet continues the queue, sends the stored volume, which is the last one
  requested, and writes PLAYING. The volume is the seventh byte of the system-exclusive
  message.
\<close>

theorem volume_round_trip:
  "(0 \<le> clamp_volume v \<and> clamp_volume v \<le> 127
      \<and> (v < 0 \<longrightarrow> clamp_volume v = 0) \<and> (127 < v \<longrightarrow> clamp_volume v = 127)
      \<and> (0 \<le> v \<and> v \<le> 127 \<longrightarrow> clamp_volume v = v))
   \<and> (playerstate (song m) = NATIVE_MIDI_PLAYING \<longrightarrow>
        (\<exists>b. native_midi_setvolume r v (Some m) = Some (sock_write (THREAD_CMD_SETVOL, b) r m)
             \<and> uint b = clamp_volume v))
   \<and> (thread_setup q rets m = Some m0 \<and> run_loop ws m0 = (CONTINUE, m1) \<longrightarrow>
        current_volume m1 = last_setvol ws 0x7F
        \<and> trace (handle_command (THREAD_CMD_SETVOL, x) m1) =
            trace m1 @ [EVENT_OUTPUT_DIRECT (volume_sysex (song m1) x)]
        \<and> current_volume (handle_command (THREAD_CMD_SETVOL, x) m1) = x
        \<and> trace (handle_command (THREAD_CMD_PAUSE, x) m1) =
            trace m1 @ [EVENT_OUTPUT_DIRECT (volume_sysex (song m1) 0),
                        EVENT_OUTPUT_DIRECT (snd_seq_ev_set_direct
                           (snd_seq_ev_set_queue_control (EV_STOP (queue m1)) snd_seq_ev_clear)),
                        ATOMIC_SET NATIVE_MIDI_PAUSED]
        \<and> current_volume (handle_command (THREAD_CMD_PAUSE, x) m1) = current_volume m1
        \<and> trace (handle_command (THREAD_CMD_RESUME, x) m1) =
            trace m1 @ [EVENT_OUTPUT_DIRECT (snd_seq_ev_set_direct
                           (snd_seq_ev_set_queue_control (EV_CONTINUE (queue m1)) snd_seq_ev_clear)),
                        EVENT_OUTPUT_DIRECT (volume_sysex (song m1) (last_setvol ws 0x7F)),
                        ATOMIC_SET NATIVE_MIDI_PLAYING])
   \<and> ev_data (volume_sysex s vol) = EV_SYSEX [0xF0, 0x7F, 0x7F, 0x04, 0x01, 0x00, vol, 0xF7]"
proof -
  have 1: "0 \<le> clamp_volume v \<and> clamp_volume v \<le> 127
      \<and> (v < 0 \<longrightarrow> clamp_volume v = 0) \<and> (127 < v \<longrightarrow> clamp_volume v = 127)
      \<and> (0 \<le> v \<and> v \<le> 127 \<longrightarrow> clamp_volume v = v)"
    by (simp add: clamp_volume_def)
  have 2: "playerstate (song m) = NATIVE_MIDI_PLAYING \<longrightarrow>
        (\<exists>b. native_midi_setvolume r v (Some m) = Some (sock_write (THREAD_CMD_SETVOL, b) r m)
             \<and> uint b = clamp_volume v)"
    by (auto simp: native_midi_setvolume_def uint_clamp_volume
          intro!: exI [of _ "word_of_int (clamp_volume v)"])
  have 3: "current_volume m1 = last_setvol ws 0x7F"
    if "thread_setup q rets m = Some m0 \<and> run_loop ws m0 = (CONTINUE, m1)"
    using that run_loop_current_volume [of ws m0 m1] thread_setup_current_volume [of q rets m m0]
    by simp
  have 4: "trace (handle_command (THREAD_CMD_SETVOL, x) m1) =
            trace m1 @ [EVENT_OUTPUT_DIRECT (volume_sysex (song m1) x)]
        \<and> current_volume (handle_command (THREAD_CMD_SETVOL, x) m1) = x
        \<and> trace (handle_command (THREAD_CMD_PAUSE, x) m1) =
            trace m1 @ [EVENT_OUTPUT_DIRECT (volume_sysex (song m1) 0),
                        EVENT_OUTPUT_DIRECT (snd_seq_ev_set_direct
                           (snd_seq_ev_set_queue_control (EV_STOP (queue m1)) snd_seq_ev_clear)),
                        ATOMIC_SET NATIVE_MIDI_PAUSED]
        \<and> current_volume (handle_command (THREAD_CMD_PAUSE, x) m1) = current_volume m1
        \<and> trace (handle_command (THREAD_CMD_RESUME, x) m1) =
            trace m1 @ [EVENT_OUTPUT_DIRECT (snd_seq_ev_set_direct
                           (snd_seq_ev_set_queue_control (EV_CONTINUE (queue m1)) snd_seq_ev_clear)),
                        EVENT_OUTPUT_DIRECT (volume_sysex (song m1) (current_volume m1)),
                        ATOMIC_SET NATIVE_MIDI_PLAYING]"
    by (simp add: handle_command_def send_volume_sysex_def stop_queue_def continue_queue_def
          SDL_AtomicSet_def
          THREAD_CMD_QUIT_def THREAD_CMD_SETVOL_def THREAD_CMD_PAUSE_def THREAD_CMD_RESUME_def)
  have 5: "ev_data (volume_sysex s vol) = EV_SYSEX [0xF0, 0x7F, 0x7F, 0x04, 0x01, 0x00, vol, 0xF7]"
    by (simp add: volume_sysex_def snd_seq_ev_set_sysex_def MIDI_CMD_COMMON_SYSEX_def
          MIDI_CMD_COMMON_SYSEX_END_def)
  from 1 2 3 4 5 show ?thesis by simp
qed

theorem volume_round_trip_witness:
  "clamp_volume 200 = 127 \<and> clamp_volume (- 5) = 0
   \<and> (\<exists>m0 m1. thread_setup 0 [0] demo_machine = Some m0
         \<and> run_loop [command_wake (THREAD_CMD_SETVOL, 50), command_wake pkt_thread_cmd_pause] m0
             = (CONTINUE, m1)
         \<and> current_volume m1 = 50
         \<and> trace (handle_command (THREAD_CMD_RESUME, 0) m1) =
            trace m1 @ [EVENT_OUTPUT_DIRECT (snd_seq_ev_set_direct
                           (snd_seq_ev_set_queue_control (EV_CONTINUE (queue m1)) snd_seq_ev_clear)),
                        EVENT_OUTPUT_DIRECT (volume_sysex (song m1) 50),
                        ATOMIC_SET NATIVE_MIDI_PLAYING])"
proof -
  let ?ws = "[command_wake (THREAD_CMD_SETVOL, 50), command_wake pkt_thread_cmd_pause]"
  have c: "clamp_volume 200 = 127" "clamp_volume (- 5) = 0"
    using volume_round_trip [of 200] volume_round_trip [of "- 5"] by simp_all
  have r: "(0::int) \<noteq> - EAGAIN" by (simp add: EAGAIN_def)
  from thread_setup_Some [OF r, of 0 "[]" demo_machine] obtain m0 where
    m0: "thread_setup 0 [0] demo_machine = Some m0" "event m0 = evtlist (song demo_machine)"
    by blast
  then have e0: "event m0 \<noteq> []" by (simp add: demo_machine_def demo_song_def)
  have q: "fst (THREAD_CMD_SETVOL, 50 :: 8 word) \<noteq> THREAD_CMD_QUIT"
          "fst pkt_thread_cmd_pause \<noteq> THREAD_CMD_QUIT"
    by (simp_all add: THREAD_CMD_SETVOL_def THREAD_CMD_QUIT_def pkt_thread_cmd_pause_def
          THREAD_CMD_PAUSE_def)
  from loop_body_command_wake [OF e0 q(1)] obtain ma where
    ma: "loop_body (command_wake (THREAD_CMD_SETVOL, 50)) m0 = (CONTINUE, ma)" "event ma = event m0"
    by blast
  with e0 have "event ma \<noteq> []" by simp
  from loop_body_command_wake [OF this q(2)] obtain m1 where
    m1: "loop_body (command_wake pkt_thread_cmd_pause) ma = (CONTINUE, m1)"
    by blast
  from ma(1) m1 have run: "run_loop ?ws m0 = (CONTINUE, m1)" by simp
  have l: "last_setvol ?ws 0x7F = 50"
    by (simp add: reads_setvol_def command_wake_def pkt_thread_cmd_pause_def
          THREAD_CMD_SETVOL_def THREAD_CMD_PAUSE_def)
  from volume_round_trip [of _ demo_machine _ 0 "[0]" m0 ?ws m1 0] m0(1) run
  have "current_volume m1 = last_setvol ?ws 0x7F
        \<and> trace (handle_command (THREAD_CMD_RESUME, 0) m1) =
            trace m1 @ [EVENT_OUTPUT_DIRECT (snd_seq_ev_set_direct
                           (snd_seq_ev_set_queue_control (EV_CONTINUE (queue m1)) snd_seq_ev_clear)),
                        EVENT_OUTPUT_DIRECT (volume_sysex (song m1) (last_setvol ?ws 0x7F)),
                        ATOMIC_SET NATIVE_MIDI_PLAYING]"
    by blast
  with l m0(1) run c show ?thesis by auto
qed

section \<open>Loop counts\<close>

lemma passes_log_simps [simp]:
  "passes_log [] = []"
  "passes_log (a # as) = logged a @ passes_log as"
  "passes_log (as @ bs) = passes_log as @ passes_log bs"
  by (simp_all add: passes_log_def)

lemma echo_count_simps [simp]:
  "echo_count [] = 0"
  "echo_count (a # as) = (if is_echo_enqueued a then Suc (echo_count as) else echo_count as)"
  "echo_count (as @ bs) = echo_count as + echo_count bs"
  by (simp_all add: echo_count_def)

lemma state_writes_simps [simp]:
  "state_writes [] = []"
  "state_writes (a # as) = written a @ state_writes as"
  "state_writes (as @ bs) = state_writes as @ state_writes bs"
  by (simp_all add: state_writes_def)

lemma output_retry_obs:
  "output_retry ev rets = Some as \<Longrightarrow>
     passes_log as = [] \<and> state_writes as = []
     \<and> echo_count as = (if ev_data ev = EV_ECHO then 1 else 0)"
proof (induction rets arbitrary: as)
  case Nil
  then show ?case by simp
next
  case (Cons r rets)
  show ?case
  proof (cases "r = - EAGAIN")
    case True
    with Cons.prems obtain as' where a: "output_retry ev rets = Some as'" "as = EVENT_OUTPUT ev r # as'"
      by (auto split: option.splits)
    from Cons.IH [OF a(1)] a(2) True show ?thesis by simp
  next
    case False
    with Cons.prems show ?thesis by auto
  qed
qed

lemma concat_replicate_Suc_right:
  "concat (replicate p xs) @ xs = concat (replicate (Suc p) xs)"
proof -
  have "replicate p xs @ [xs] = xs # replicate p xs" by (rule replicate_append_same)
  then have "concat (replicate p xs @ [xs]) = concat (xs # replicate p xs)" by simp
  then show ?thesis by simp
qed

lemma translate_not_echo:
  "translate s q e ev0 = (False, ev) \<Longrightarrow> ev_data ev \<noteq> EV_ECHO"
  by (auto simp: translate_def Let_def ev_set_defs split: if_splits)

lemma pass_inv_read_command:
  assumes "pass_inv L evs t0 p m" and "\<not> reads_quit w"
  shows "pass_inv L evs t0 p (read_command w m)"
proof (cases "cmd_pollin w")
  case False
  with assms show ?thesis by (simp add: read_command_def)
next
  case True
  show ?thesis
  proof (cases "cmd_read w")
    case None
    with assms show ?thesis by (simp add: read_command_def)
  next
    case (Some pkt)
    with True assms(2) have q: "fst pkt \<noteq> THREAD_CMD_QUIT" by (simp add: reads_quit_def)
    from assms(1) obtain d x where
      d: "evs = d @ event m" "trace m = t0 @ x"
         "passes_log x = concat (replicate p evs) @ d" "echo_count x = Suc p"
      by (auto simp: pass_inv_def log_inv_def)
    have "\<exists>y. trace (handle_command pkt m) = trace m @ y \<and> passes_log y = [] \<and> echo_count y = 0"
      by (simp add: handle_command_def send_volume_sysex_def stop_queue_def continue_queue_def
            SDL_AtomicSet_def)
    then obtain y where y: "trace (handle_command pkt m) = t0 @ (x @ y)"
        "passes_log (x @ y) = concat (replicate p evs) @ d" "echo_count (x @ y) = Suc p"
      using d by auto
    have s: "event (handle_command pkt m) = event m"
            "evtlist (song (handle_command pkt m)) = evtlist (song m)"
            "loopcount (song (handle_command pkt m)) = loopcount (song m)"
      using q
      by (simp_all add: handle_command_def send_volume_sysex_def stop_queue_def continue_queue_def
            SDL_AtomicSet_def)
    have "log_inv evs t0 p (handle_command pkt m)"
      unfolding log_inv_def using d(1) y s(1) by metis
    with assms(1) s have "pass_inv L evs t0 p (handle_command pkt m)"
      by (simp add: pass_inv_def)
    with True Some show ?thesis by (simp add: read_command_def)
  qed
qed

lemma pass_inv_read_sequencer:
  "pass_inv L evs t0 p m \<Longrightarrow> pass_inv L evs t0 p (read_sequencer w m)"
  by (simp add: read_sequencer_def pass_inv_def log_inv_def)

lemma pass_inv_drain:
  assumes "pass_inv L evs t0 p m"
  shows "pass_inv L evs t0 p (drain w m)"
proof -
  from assms obtain d x where
    d: "evs = d @ event m" "trace m = t0 @ x"
       "passes_log x = concat (replicate p evs) @ d" "echo_count x = Suc p"
    by (auto simp: pass_inv_def log_inv_def)
  have t: "trace (drain w m) = t0 @ (x @ [DRAIN_OUTPUT])" "event (drain w m) = event m"
          "song (drain w m) = song m"
    using d(2) by (simp_all add: drain_def)
  have o: "passes_log (x @ [DRAIN_OUTPUT]) = concat (replicate p evs) @ d"
          "echo_count (x @ [DRAIN_OUTPUT]) = Suc p"
    using d by simp_all
  have "log_inv evs t0 p (drain w m)"
    unfolding log_inv_def using d(1) t(1,2) o by metis
  with assms t(3) show ?thesis by (simp add: pass_inv_def)
qed


lemma pass_inv_send_event:
  assumes "pass_inv L evs t0 p m" and "send_event w m = (c, m')"
      and "event m \<noteq> [] \<or> \<not> seq_pollout w"
  shows "pass_inv L evs t0 p m' \<and> c = CONTINUE"
proof (cases "seq_pollout w")
  case False
  with assms show ?thesis by (simp add: send_event_def)
next
  case True
  with assms(3) obtain e rest where er: "event m = e # rest" by (cases "event m") auto
  from assms(1) obtain d x where
    d: "evs = d @ event m" "trace m = t0 @ x"
       "passes_log x = concat (replicate p evs) @ d" "echo_count x = Suc p"
    by (auto simp: pass_inv_def log_inv_def)
  obtain u ev where t: "translate (song m) (queue m) e (evt m) = (u, ev)"
    by (cases "translate (song m) (queue m) e (evt m)")
  have s: "song m' = song m" and cc: "c = CONTINUE"
    using assms(2) True er t by (auto simp: send_event_def Let_def split: if_splits)
  consider (unhandled) "u" | (sent) "\<not> u" "output_ret w \<noteq> - EAGAIN"
    | (again) "\<not> u" "output_ret w = - EAGAIN"
    by blast
  then have "\<exists>d' x'. evs = d' @ event m' \<and> trace m' = t0 @ x'
         \<and> passes_log x' = concat (replicate p evs) @ d' \<and> echo_count x' = Suc p"
  proof cases
    case unhandled
    with assms(2) True er t have
      "event m' = rest" "trace m' = t0 @ (x @ [DBG_LOG True e])"
      using d(2) by (auto simp: send_event_def)
    moreover have "evs = (d @ [e]) @ rest" using d(1) er by simp
    moreover have "passes_log (x @ [DBG_LOG True e]) = concat (replicate p evs) @ (d @ [e])"
      using d(3) by simp
    moreover have "echo_count (x @ [DBG_LOG True e]) = Suc p" using d(4) by simp
    ultimately show ?thesis by blast
  next
    case sent
    from sent(1) t have ne: "ev_data ev \<noteq> EV_ECHO" using translate_not_echo by auto
    from sent assms(2) True er t have
      "event m' = rest" "trace m' = t0 @ (x @ [EVENT_OUTPUT ev (output_ret w), DBG_LOG False e])"
      using d(2) by (auto simp: send_event_def)
    moreover have "evs = (d @ [e]) @ rest" using d(1) er by simp
    moreover have "passes_log (x @ [EVENT_OUTPUT ev (output_ret w), DBG_LOG False e])
                   = concat (replicate p evs) @ (d @ [e])"
      using d(3) by simp
    moreover have "echo_count (x @ [EVENT_OUTPUT ev (output_ret w), DBG_LOG False e]) = Suc p"
      using d(4) ne by simp
    ultimately show ?thesis by blast
  next
    case again
    from again(1) t have ne: "ev_data ev \<noteq> EV_ECHO" using translate_not_echo by auto
    from again assms(2) True er t have
      "event m' = event m" "trace m' = t0 @ (x @ [EVENT_OUTPUT ev (output_ret w)])"
      using d(2) by (auto simp: send_event_def)
    moreover have "passes_log (x @ [EVENT_OUTPUT ev (output_ret w)]) = concat (replicate p evs) @ d"
      using d(3) by simp
    moreover have "echo_count (x @ [EVENT_OUTPUT ev (output_ret w)]) = Suc p"
      using d(4) ne by simp
    ultimately show ?thesis using d(1) by metis
  qed
  then have "log_inv evs t0 p m'" by (simp add: log_inv_def)
  with assms(1) s cc show ?thesis by (simp add: pass_inv_def)
qed

lemma pass_inv_restart:
  assumes "pass_inv L evs t0 p m" and "event m = []" and "loopcount (song m) \<noteq> 0"
      and "restart w m = Some m'"
  shows "pass_inv L evs t0 (Suc p) m' \<and> event m' = evs"
proof -
  from assms(1,2) obtain x where
    d: "evtlist (song m) = evs" "trace m = t0 @ x"
       "passes_log x = concat (replicate p evs) @ evs" "echo_count x = Suc p"
    by (auto simp: pass_inv_def log_inv_def)
  from assms(4) obtain as bs where
    r: "output_retry (queue_reset_event (song m) (queue m)) (reset_rets w) = Some as"
       "output_retry (echo_event (song m) (queue m)) (echo_rets w) = Some bs"
    by (auto simp: restart_def enqueue_queue_reset_event_def enqueue_echo_event_def
          split: option.splits)
  from assms(4) r have m': "trace m' = trace m @ as @ bs" "event m' = evtlist (song m)"
      "evtlist (song m') = evtlist (song m)"
      "loopcount (song m') = (if loopcount (song m) > 0 then loopcount (song m) - 1 else loopcount (song m))"
    by (auto simp: restart_def enqueue_queue_reset_event_def enqueue_echo_event_def)
  have qe: "ev_data (queue_reset_event (song m) (queue m)) \<noteq> EV_ECHO"
    by (simp add: queue_reset_event_def snd_seq_ev_schedule_tick_def snd_seq_ev_set_queue_pos_tick_def)
  have ee: "ev_data (echo_event (song m) (queue m)) = EV_ECHO" by (rule echo_event_fields)
  from output_retry_obs [OF r(1)] qe have oa: "passes_log as = []" "echo_count as = 0" by simp_all
  from output_retry_obs [OF r(2)] ee have ob: "passes_log bs = []" "echo_count bs = 1" by simp_all
  have 1: "trace m' = t0 @ (x @ as @ bs)" using m'(1) d(2) by simp
  have 2: "passes_log (x @ as @ bs) = concat (replicate (Suc p) evs) @ []"
    using d(3) oa ob concat_replicate_Suc_right [of p evs] by simp
  have 3: "echo_count (x @ as @ bs) = Suc (Suc p)" using d(4) oa ob by simp
  have 4: "evs = [] @ event m'" using m'(2) d(1) by simp
  have 5: "count_inv L (Suc p) (loopcount (song m'))"
    using assms(1,3) m'(4) by (auto simp: pass_inv_def count_inv_def split: if_splits)
  have "log_inv evs t0 (Suc p) m'"
    unfolding log_inv_def using 1 2 3 4 by blast
  with 5 m'(2,3) d(1) show ?thesis by (simp add: pass_inv_def)
qed

lemma pass_inv_loop_body:
  assumes "pass_inv L evs t0 p m" and "0 < poll_ret w" and "\<not> reads_quit w" and "evs \<noteq> []"
      and "loop_body w m = (c, m')"
  shows "(pass_inv L evs t0 p m' \<or> pass_inv L evs t0 (Suc p) m') \<and> c \<noteq> NULL_DEREF
       \<and> (c = BREAK \<longrightarrow> pass_inv L evs t0 p m' \<and> event m' = [] \<and> loopcount (song m') = 0)"
proof -
  let ?m = "read_sequencer w (read_command w m)"
  have i: "pass_inv L evs t0 p ?m"
    using assms(1,3) by (intro pass_inv_read_sequencer pass_inv_read_command)
  from assms(2,5) have
    "(event ?m = [] \<and> playback_finished ?m \<and> loopcount (song ?m) = 0 \<and> c = BREAK \<and> m' = ?m)
     \<or> (event ?m = [] \<and> playback_finished ?m \<and> loopcount (song ?m) \<noteq> 0
          \<and> restart w ?m = None \<and> c = SPINNING \<and> m' = ?m)
     \<or> (\<exists>x. event ?m = [] \<and> playback_finished ?m \<and> loopcount (song ?m) \<noteq> 0
          \<and> restart w ?m = Some x \<and> send_event w x = (c, m'))
     \<or> (event ?m = [] \<and> \<not> playback_finished ?m \<and> c = CONTINUE \<and> m' = drain w ?m)
     \<or> (event ?m \<noteq> [] \<and> send_event w ?m = (c, m'))"
    by (simp add: loop_body_def Let_def split: if_splits option.splits)
  then show ?thesis
  proof (elim disjE exE conjE)
    assume "event ?m = []" "loopcount (song ?m) = 0" "c = BREAK" "m' = ?m"
    with i show ?thesis by simp
  next
    assume "c = SPINNING" "m' = ?m"
    with i show ?thesis by simp
  next
    fix x
    assume a: "event ?m = []" "loopcount (song ?m) \<noteq> 0" "restart w ?m = Some x"
       "send_event w x = (c, m')"
    from pass_inv_restart [OF i a(1,2,3)] have x: "pass_inv L evs t0 (Suc p) x" "event x = evs"
      by simp_all
    from x(2) assms(4) have "event x \<noteq> [] \<or> \<not> seq_pollout w" by simp
    from pass_inv_send_event [OF x(1) a(4) this] show ?thesis by simp
  next
    assume "c = CONTINUE" "m' = drain w ?m"
    with pass_inv_drain [OF i, of w] show ?thesis by simp
  next
    assume a: "event ?m \<noteq> []" "send_event w ?m = (c, m')"
    from a(1) have "event ?m \<noteq> [] \<or> \<not> seq_pollout w" by simp
    from pass_inv_send_event [OF i a(2) this] show ?thesis by simp
  qed
qed

lemma pass_inv_run_loop:
  assumes "\<forall>w \<in> set ws. 0 < poll_ret w \<and> \<not> reads_quit w" and "evs \<noteq> []"
      and "pass_inv L evs t0 p m" and "run_loop ws m = (c, m')"
  shows "\<exists>p'. pass_inv L evs t0 p' m' \<and> c \<noteq> NULL_DEREF
       \<and> (c = BREAK \<longrightarrow> event m' = [] \<and> loopcount (song m') = 0)"
  using assms
proof (induction ws arbitrary: p m)
  case Nil
  then show ?case by auto
next
  case (Cons w ws)
  obtain c1 m1 where b: "loop_body w m = (c1, m1)" by (cases "loop_body w m")
  from Cons.prems(1) have w: "0 < poll_ret w" "\<not> reads_quit w"
    and ws: "\<forall>w \<in> set ws. 0 < poll_ret w \<and> \<not> reads_quit w" by simp_all
  note L = pass_inv_loop_body [OF Cons.prems(3) w Cons.prems(2) b]
  show ?case
  proof (cases "c1 = CONTINUE")
    case True
    with b Cons.prems(4) have r: "run_loop ws m1 = (c, m')" by simp
    from L consider "pass_inv L evs t0 p m1" | "pass_inv L evs t0 (Suc p) m1" by blast
    then show ?thesis
    proof cases
      case 1
      from Cons.IH [OF ws Cons.prems(2) 1 r] show ?thesis .
    next
      case 2
      from Cons.IH [OF ws Cons.prems(2) 2 r] show ?thesis .
    qed
  next
    case False
    with b Cons.prems(4) have "c = c1" "m' = m1" by (cases c1; simp)+
    with L show ?thesis by blast
  qed
qed

lemma run_loop_append:
  "run_loop (xs @ ys) m =
     (case run_loop xs m of (CONTINUE, m') \<Rightarrow> run_loop ys m' | (c, m') \<Rightarrow> (c, m'))"
proof (induction xs arbitrary: m)
  case Nil
  then show ?case by simp
next
  case (Cons w xs)
  obtain c m1 where b: "loop_body w m = (c, m1)" by (cases "loop_body w m")
  show ?case using b Cons.IH [of m1] by (cases c) simp_all
qed

lemma loop_body_send_wake:
  assumes "event m = e # rest"
  shows "\<exists>m'. loop_body send_wake m = (CONTINUE, m') \<and> event m' = rest \<and> song m' = song m"
proof -
  obtain u ev where t: "translate (song m) (queue m) e (evt m) = (u, ev)"
    by (cases "translate (song m) (queue m) e (evt m)")
  have r: "(0::int) \<noteq> - EAGAIN" by (simp add: EAGAIN_def)
  have "\<exists>m'. send_event send_wake m = (CONTINUE, m') \<and> event m' = rest \<and> song m' = song m"
    using assms t r by (cases u) (simp_all add: send_event_def send_wake_def)
  then show ?thesis
    using assms by (simp add: loop_body_def Let_def read_command_def read_sequencer_def send_wake_def)
qed

lemma run_loop_send_wakes:
  "event m = es \<Longrightarrow>
   \<exists>m'. run_loop (replicate (length es) send_wake) m = (CONTINUE, m')
        \<and> event m' = [] \<and> song m' = song m"
proof (induction es arbitrary: m)
  case Nil
  then show ?case by simp
next
  case (Cons e es)
  from loop_body_send_wake [OF Cons.prems] obtain m1 where
    m1: "loop_body send_wake m = (CONTINUE, m1)" "event m1 = es" "song m1 = song m" by blast
  from Cons.IH [OF m1(2)] m1(1,3) show ?case by simp
qed

lemma loop_body_echo_wake_last:
  assumes "event m = []" and "loopcount (song m) = 0"
  shows "\<exists>m'. loop_body echo_wake m = (BREAK, m')"
  using assms
  by (simp add: loop_body_def Let_def read_command_def read_sequencer_def echo_wake_def)

lemma loop_body_echo_wake_again:
  assumes "event m = []" and "loopcount (song m) \<noteq> 0"
  shows "\<exists>m'. loop_body echo_wake m = (CONTINUE, m') \<and> event m' = evtlist (song m)
            \<and> evtlist (song m') = evtlist (song m)
            \<and> loopcount (song m') =
                (if 0 < loopcount (song m) then loopcount (song m) - 1 else loopcount (song m))"
proof -
  have r: "(0::int) \<noteq> - EAGAIN" by (simp add: EAGAIN_def)
  let ?m = "m\<lparr>playback_finished := True\<rparr>"
  have "\<exists>x. restart echo_wake ?m = Some x \<and> event x = evtlist (song m)
            \<and> evtlist (song x) = evtlist (song m)
            \<and> loopcount (song x) =
                (if 0 < loopcount (song m) then loopcount (song m) - 1 else loopcount (song m))"
    using r
    by (simp add: restart_def enqueue_queue_reset_event_def enqueue_echo_event_def echo_wake_def)
  then obtain x where x: "restart echo_wake ?m = Some x" "event x = evtlist (song m)"
     "evtlist (song x) = evtlist (song m)"
     "loopcount (song x) =
                (if 0 < loopcount (song m) then loopcount (song m) - 1 else loopcount (song m))"
    by blast
  have s: "send_event echo_wake x = (CONTINUE, x)" by (simp add: send_event_def echo_wake_def)
  have "loop_body echo_wake m = (CONTINUE, x)"
    using assms x(1) s
    by (simp add: loop_body_def Let_def read_command_def read_sequencer_def echo_wake_def)
  with x show ?thesis by blast
qed

lemma passes_Suc: "passes (Suc k) n = replicate n send_wake @ echo_wake # passes k n"
  by (simp add: passes_def one_pass_def)

lemma run_loop_passes:
  "loopcount (song m) = int k \<Longrightarrow> event m = evtlist (song m) \<Longrightarrow>
   \<exists>m'. run_loop (passes (Suc k) (length (evtlist (song m)))) m = (BREAK, m')"
proof (induction k arbitrary: m)
  case 0
  from run_loop_send_wakes [OF "0.prems"(2)] obtain m1 where
    m1: "run_loop (replicate (length (evtlist (song m))) send_wake) m = (CONTINUE, m1)"
        "event m1 = []" "song m1 = song m" by blast
  from loop_body_echo_wake_last [of m1] m1(2,3) "0.prems"(1) obtain m2 where
    "loop_body echo_wake m1 = (BREAK, m2)" by auto
  moreover have "passes 0 n = []" for n by (simp add: passes_def)
  ultimately show ?case using m1(1)
    by (simp add: passes_Suc run_loop_append)
next
  case (Suc k)
  from run_loop_send_wakes [OF Suc.prems(2)] obtain m1 where
    m1: "run_loop (replicate (length (evtlist (song m))) send_wake) m = (CONTINUE, m1)"
        "event m1 = []" "song m1 = song m" by blast
  from Suc.prems(1) m1(3) have "loopcount (song m1) \<noteq> 0" by simp
  from loop_body_echo_wake_again [OF m1(2) this] obtain m2 where
    m2: "loop_body echo_wake m1 = (CONTINUE, m2)" "event m2 = evtlist (song m1)"
        "evtlist (song m2) = evtlist (song m1)"
        "loopcount (song m2) =
           (if 0 < loopcount (song m1) then loopcount (song m1) - 1 else loopcount (song m1))"
    by blast
  from m2(4) m1(3) Suc.prems(1) have l: "loopcount (song m2) = int k" by simp
  from m2(2,3) have e: "event m2 = evtlist (song m2)" by simp
  from Suc.IH [OF l e] obtain m' where
    "run_loop (passes (Suc k) (length (evtlist (song m2)))) m2 = (BREAK, m')" by blast
  with m2(3) m1(3) have "run_loop (passes (Suc k) (length (evtlist (song m)))) m2 = (BREAK, m')"
    by simp
  with m1(1) m2(1) show ?case
    by (simp add: passes_Suc [of "Suc k"] run_loop_append)
qed

lemma thread_setup_pass_inv:
  assumes "thread_setup q rets m = Some m0"
  shows "pass_inv (loopcount (song m)) (evtlist (song m)) (trace m) 0 m0
         \<and> event m0 = evtlist (song m0) \<and> loopcount (song m0) = loopcount (song m)"
proof -
  from assms obtain as where
    a: "output_retry (echo_event (song m) q) rets = Some as"
    by (auto simp: thread_setup_def Let_def enqueue_echo_event_def split: option.splits)
  with assms have m0:
    "trace m0 = trace m @ ([ALLOC_QUEUE q, START_QUEUE q, POLL_DESCRIPTORS, NONBLOCK True,
                  SET_QUEUE_TEMPO q 500000 (ppqn (song m))] @ as @ [ATOMIC_SET NATIVE_MIDI_PLAYING])"
    "event m0 = evtlist (song m)" "evtlist (song m0) = evtlist (song m)"
    "loopcount (song m0) = loopcount (song m)"
    by (auto simp: thread_setup_def Let_def enqueue_echo_event_def SDL_AtomicSet_def)
  from output_retry_obs [OF a] have o: "passes_log as = []" "echo_count as = 1"
    by (simp_all add: echo_event_fields)
  have 1: "passes_log ([ALLOC_QUEUE q, START_QUEUE q, POLL_DESCRIPTORS, NONBLOCK True,
                  SET_QUEUE_TEMPO q 500000 (ppqn (song m))] @ as @ [ATOMIC_SET NATIVE_MIDI_PLAYING])
           = concat (replicate 0 (evtlist (song m))) @ []"
    using o by simp
  have 2: "echo_count ([ALLOC_QUEUE q, START_QUEUE q, POLL_DESCRIPTORS, NONBLOCK True,
                  SET_QUEUE_TEMPO q 500000 (ppqn (song m))] @ as @ [ATOMIC_SET NATIVE_MIDI_PLAYING])
           = Suc 0"
    using o by simp
  have 3: "evtlist (song m) = [] @ event m0" using m0(2) by simp
  have "log_inv (evtlist (song m)) (trace m) 0 m0"
    unfolding log_inv_def using m0(1) 1 2 3 by blast
  moreover have "count_inv (loopcount (song m)) 0 (loopcount (song m0))"
    using m0(4) by (simp add: count_inv_def)
  ultimately show ?thesis using m0 by (simp add: pass_inv_def)
qed

lemma passes_log_direct:
  "(\<forall>a \<in> set as. \<exists>ev. a = EVENT_OUTPUT_DIRECT ev) \<Longrightarrow> passes_log as = []"
  by (induction as) auto

lemma loop_body_poll_failure: "poll_ret w \<le> 0 \<Longrightarrow> loop_body w m = (BREAK, m)"
  by (simp add: loop_body_def)

text \<open>
  Claim C1, as amended. Take a session on a song with a non-empty event list and loop
  count \<open>L\<close>, after its setup, and any wakes in which \<open>poll\<close> does not fail and no QUIT
  packet is read. If the loop is left after these wakes, then \<open>L\<close> is not negative, the
  events the translation step went past since the session began are exactly \<open>L + 1\<close>
  copies of the event list (one pass for \<open>L = 0\<close>, \<open>k + 1\<close> passes for \<open>L = k > 0\<close>),
  and exactly \<open>L + 1\<close> echo events were enqueued (one for \<open>L = 0\<close>). If \<open>L\<close> is negative
  the loop is not left and the counter still is \<open>L\<close>: it is never decremented. When \<open>L\<close>
  is not negative the loop does end: in the environment that accepts one event per wake and
  returns the echo after the last one, \<open>L + 1\<close> passes leave the loop. A wake in which
  \<open>poll\<close> returns 0 or less leaves the loop at once, whatever the loop count.
\<close>

theorem loop_count_semantics:
  assumes "thread_setup q rets m = Some m0"
      and "evtlist (song m) \<noteq> []"
      and "\<forall>w \<in> set ws. 0 < poll_ret w \<and> \<not> reads_quit w"
      and "run_loop ws m0 = (c, m')"
  shows "(c = BREAK \<longrightarrow>
            0 \<le> loopcount (song m)
            \<and> passes_log (since m m') =
                concat (replicate (nat (loopcount (song m)) + 1) (evtlist (song m)))
            \<and> echo_count (since m m') = nat (loopcount (song m)) + 1)
       \<and> (loopcount (song m) < 0 \<longrightarrow> c \<noteq> BREAK \<and> loopcount (song m') = loopcount (song m))
       \<and> (0 \<le> loopcount (song m) \<longrightarrow>
            (\<forall>w \<in> set (passes (nat (loopcount (song m)) + 1) (length (evtlist (song m)))).
                0 < poll_ret w \<and> \<not> reads_quit w)
            \<and> (\<exists>m''. run_loop (passes (nat (loopcount (song m)) + 1) (length (evtlist (song m)))) m0
                        = (BREAK, m'')))
       \<and> (\<forall>w x. poll_ret w \<le> 0 \<longrightarrow> loop_body w x = (BREAK, x))"
proof -
  let ?L = "loopcount (song m)" and ?evs = "evtlist (song m)"
  from thread_setup_pass_inv [OF assms(1)] have
    i0: "pass_inv ?L ?evs (trace m) 0 m0" and e0: "event m0 = evtlist (song m0)"
    and l0: "loopcount (song m0) = ?L" by simp_all
  from i0 have ev0: "evtlist (song m0) = ?evs" by (simp add: pass_inv_def)
  from pass_inv_run_loop [OF assms(3,2) i0 assms(4)] obtain p where
    p: "pass_inv ?L ?evs (trace m) p m'"
       "c = BREAK \<longrightarrow> event m' = [] \<and> loopcount (song m') = 0"
    by blast
  from p(1) obtain d x where
    x: "?evs = d @ event m'" "trace m' = trace m @ x"
       "passes_log x = concat (replicate p ?evs) @ d" "echo_count x = Suc p"
    and cn: "count_inv ?L p (loopcount (song m'))"
    by (auto simp: pass_inv_def log_inv_def)
  from x(2) have sx: "since m m' = x" by (simp add: since_def)
  have 1: "c = BREAK \<longrightarrow>
            0 \<le> ?L \<and> passes_log (since m m') = concat (replicate (nat ?L + 1) ?evs)
            \<and> echo_count (since m m') = nat ?L + 1"
  proof
    assume "c = BREAK"
    with p(2) have b: "event m' = []" "loopcount (song m') = 0" by simp_all
    from cn b(2) have L: "0 \<le> ?L" "int p = ?L"
      by (auto simp: count_inv_def split: if_splits)
    then have np: "nat ?L = p" by simp
    from x(1) b(1) have "d = ?evs" by simp
    with x(3) have "passes_log x = concat (replicate (Suc p) ?evs)"
      using concat_replicate_Suc_right [of p ?evs] by simp
    with x(4) L(1) np sx show "0 \<le> ?L \<and> passes_log (since m m') = concat (replicate (nat ?L + 1) ?evs)
            \<and> echo_count (since m m') = nat ?L + 1"
      by simp
  qed
  have 2: "?L < 0 \<longrightarrow> c \<noteq> BREAK \<and> loopcount (song m') = ?L"
    using cn p(2) by (auto simp: count_inv_def split: if_splits)
  have g: "\<forall>w \<in> set (passes k n). 0 < poll_ret w \<and> \<not> reads_quit w" for k n
    by (auto simp: passes_def one_pass_def send_wake_def echo_wake_def reads_quit_def)
  have 3: "0 \<le> ?L \<longrightarrow>
            (\<exists>m''. run_loop (passes (nat ?L + 1) (length ?evs)) m0 = (BREAK, m''))"
  proof
    assume "0 \<le> ?L"
    with l0 have "loopcount (song m0) = int (nat ?L)" by simp
    from run_loop_passes [OF this e0] ev0
    show "\<exists>m''. run_loop (passes (nat ?L + 1) (length ?evs)) m0 = (BREAK, m'')" by simp
  qed
  have 4: "\<forall>w x. poll_ret w \<le> 0 \<longrightarrow> loop_body w x = (BREAK, x)"
    by (simp add: loop_body_poll_failure)
  from 1 2 3 g 4 show ?thesis by blast
qed

theorem loop_count_semantics_witness:
  "\<exists>m0 m'. thread_setup 0 [0] (start_thread (Some 1) 2 demo_machine) = Some m0
      \<and> run_loop (passes 3 3) m0 = (BREAK, m')
      \<and> passes_log (since (start_thread (Some 1) 2 demo_machine) m') =
           concat (replicate 3 [demo_note, demo_bend, demo_tempo])
      \<and> echo_count (since (start_thread (Some 1) 2 demo_machine) m') = 3"
proof -
  let ?m = "start_thread (Some 1) 2 demo_machine"
  have s: "loopcount (song ?m) = 2" "evtlist (song ?m) = [demo_note, demo_bend, demo_tempo]"
    by (simp_all add: start_thread_def Let_def SDL_AtomicSet_def demo_machine_def demo_song_def)
  have n: "nat (loopcount (song ?m)) + 1 = 3" "length (evtlist (song ?m)) = 3"
    using s by simp_all
  have r: "(0::int) \<noteq> - EAGAIN" by (simp add: EAGAIN_def)
  from thread_setup_Some [OF r, of 0 "[]" ?m] obtain m0 where
    m0: "thread_setup 0 [0] ?m = Some m0" by blast
  have ne: "evtlist (song ?m) \<noteq> []" using s(2) by simp
  have e: "\<forall>w \<in> set ([] :: wake list). 0 < poll_ret w \<and> \<not> reads_quit w" by simp
  have r0: "run_loop [] m0 = (CONTINUE, m0)" by simp
  from loop_count_semantics [OF m0 ne e r0] s(1) have
    g: "\<forall>w \<in> set (passes 3 3). 0 < poll_ret w \<and> \<not> reads_quit w"
    and "\<exists>m''. run_loop (passes 3 3) m0 = (BREAK, m'')"
    unfolding n by simp_all
  then obtain m' where run: "run_loop (passes 3 3) m0 = (BREAK, m')" by blast
  from loop_count_semantics [OF m0 ne g run] have
    "passes_log (since ?m m') = concat (replicate 3 (evtlist (song ?m)))"
    "echo_count (since ?m m') = 3"
    unfolding n by simp_all
  then have
    "passes_log (since ?m m') = concat (replicate 3 [demo_note, demo_bend, demo_tempo])"
    "echo_count (since ?m m') = 3"
    unfolding s(2) by simp_all
  with m0 run show ?thesis by blast
qed

section \<open>The state machine of the playback state\<close>

lemma follows_append:
  "follows s (xs @ ys) = (follows s xs \<and> follows (last (s # xs)) ys)"
  by (induction xs arbitrary: s) simp_all

lemma diagram_edge_refl [simp]: "diagram_edge s s"
  by (cases s) simp_all

lemma sys_inv_extend:
  assumes "sys_inv m" and "trace m' = trace m @ as"
      and "follows (playerstate (song m)) (state_writes as)"
      and "playerstate (song m') = last (playerstate (song m) # state_writes as)"
      and "phase_ok (thread m') (playerstate (song m')) (playerthread (song m'))"
  shows "sys_inv m'"
proof -
  from assms(1) have a: "follows NATIVE_MIDI_STOPPED (state_writes (trace m))"
    and b: "playerstate (song m) = last (NATIVE_MIDI_STOPPED # state_writes (trace m))"
    by (simp_all add: sys_inv_def)
  have 1: "follows NATIVE_MIDI_STOPPED (state_writes (trace m'))"
    using a b assms(2,3) by (simp add: follows_append)
  have 2: "playerstate (song m') = last (NATIVE_MIDI_STOPPED # state_writes (trace m'))"
  proof (cases "state_writes as = []")
    case True
    with assms(2,4) b show ?thesis by simp
  next
    case False
    with assms(2,4) show ?thesis by simp
  qed
  from 1 2 assms(5) show ?thesis by (simp add: sys_inv_def)
qed

lemma ext_quiet_refl [simp]: "ext_quiet m m"
  by (simp add: ext_quiet_def)

lemma ext_quiet_trans: "ext_quiet a b \<Longrightarrow> ext_quiet b c \<Longrightarrow> ext_quiet a c"
  by (auto simp: ext_quiet_def)

lemma ext_quiet_emit: "state_writes as = [] \<Longrightarrow> ext_quiet m (emit as m)"
  by (simp add: ext_quiet_def)

lemma ext_quiet_read_sequencer: "ext_quiet m (read_sequencer w m)"
  by (simp add: read_sequencer_def ext_quiet_def)

lemma ext_quiet_drain: "ext_quiet m (drain w m)"
  by (simp add: drain_def ext_quiet_def)

lemma ext_quiet_send_event: "send_event w m = (c, m') \<Longrightarrow> ext_quiet m m'"
  by (auto simp: send_event_def Let_def ext_quiet_def split: if_splits list.splits prod.splits)

lemma ext_quiet_restart:
  assumes "restart w m = Some m'"
  shows "ext_quiet m m'"
proof -
  from assms obtain as bs where
    r: "output_retry (queue_reset_event (song m) (queue m)) (reset_rets w) = Some as"
       "output_retry (echo_event (song m) (queue m)) (echo_rets w) = Some bs"
    by (auto simp: restart_def enqueue_queue_reset_event_def enqueue_echo_event_def
          split: option.splits)
  from assms r have m': "trace m' = trace m @ (as @ bs)"
      "playerstate (song m') = playerstate (song m)"
      "playerthread (song m') = playerthread (song m)" "thread m' = thread m"
    by (auto simp: restart_def enqueue_queue_reset_event_def enqueue_echo_event_def)
  from output_retry_obs [OF r(1)] output_retry_obs [OF r(2)]
  have "state_writes (as @ bs) = []" by simp
  with m' show ?thesis unfolding ext_quiet_def by blast
qed

lemma handle_command_ext:
  "\<exists>as. trace (handle_command pkt m) = trace m @ as
      \<and> playerthread (song (handle_command pkt m)) = playerthread (song m)
      \<and> thread (handle_command pkt m) = thread m
      \<and> (state_writes as = [] \<and> playerstate (song (handle_command pkt m)) = playerstate (song m)
         \<or> state_writes as = [NATIVE_MIDI_PAUSED]
            \<and> playerstate (song (handle_command pkt m)) = NATIVE_MIDI_PAUSED
         \<or> state_writes as = [NATIVE_MIDI_PLAYING]
            \<and> playerstate (song (handle_command pkt m)) = NATIVE_MIDI_PLAYING)"
  by (simp add: handle_command_def send_volume_sysex_def stop_queue_def continue_queue_def
        SDL_AtomicSet_def)

lemma read_command_ext:
  "\<exists>as. trace (read_command w m) = trace m @ as
      \<and> playerthread (song (read_command w m)) = playerthread (song m)
      \<and> thread (read_command w m) = thread m
      \<and> (state_writes as = [] \<and> playerstate (song (read_command w m)) = playerstate (song m)
         \<or> state_writes as = [NATIVE_MIDI_PAUSED]
            \<and> playerstate (song (read_command w m)) = NATIVE_MIDI_PAUSED
         \<or> state_writes as = [NATIVE_MIDI_PLAYING]
            \<and> playerstate (song (read_command w m)) = NATIVE_MIDI_PLAYING)"
proof (cases "cmd_pollin w")
  case False
  then show ?thesis by (simp add: read_command_def)
next
  case True
  show ?thesis
  proof (cases "cmd_read w")
    case None
    with True show ?thesis by (simp add: read_command_def)
  next
    case (Some pkt)
    with True have "read_command w m = handle_command pkt m" by (simp add: read_command_def)
    with handle_command_ext [of pkt m] show ?thesis by simp
  qed
qed

lemma loop_body_quiet_tail:
  assumes "loop_body w m = (c, m')" and "0 < poll_ret w"
  shows "ext_quiet (read_sequencer w (read_command w m)) m'"
proof -
  let ?m = "read_sequencer w (read_command w m)"
  from assms have
    "m' = ?m \<or> (\<exists>x. restart w ?m = Some x \<and> send_event w x = (c, m'))
     \<or> m' = drain w ?m \<or> send_event w ?m = (c, m')"
    by (simp add: loop_body_def Let_def split: if_splits option.splits)
  then show ?thesis
  proof (elim disjE exE conjE)
    assume "m' = ?m"
    then show ?thesis by simp
  next
    fix x assume "restart w ?m = Some x" "send_event w x = (c, m')"
    then show ?thesis
      using ext_quiet_trans [OF ext_quiet_restart ext_quiet_send_event] by blast
  next
    assume "m' = drain w ?m"
    then show ?thesis by (simp add: ext_quiet_drain)
  next
    assume "send_event w ?m = (c, m')"
    then show ?thesis by (rule ext_quiet_send_event)
  qed
qed

lemma loop_body_ext:
  assumes "loop_body w m = (c, m')"
  shows "\<exists>as. trace m' = trace m @ as
      \<and> playerthread (song m') = playerthread (song m)
      \<and> thread m' = thread m
      \<and> (state_writes as = [] \<and> playerstate (song m') = playerstate (song m)
         \<or> state_writes as = [NATIVE_MIDI_PAUSED] \<and> playerstate (song m') = NATIVE_MIDI_PAUSED
         \<or> state_writes as = [NATIVE_MIDI_PLAYING] \<and> playerstate (song m') = NATIVE_MIDI_PLAYING)"
proof (cases "0 < poll_ret w")
  case False
  with assms have "m' = m" by (simp add: loop_body_def)
  then show ?thesis by simp
next
  case True
  let ?r = "read_command w m" and ?m = "read_sequencer w (read_command w m)"
  from read_command_ext [of w m] obtain as where
    a: "trace ?r = trace m @ as" "playerthread (song ?r) = playerthread (song m)"
       "thread ?r = thread m"
       "state_writes as = [] \<and> playerstate (song ?r) = playerstate (song m)
         \<or> state_writes as = [NATIVE_MIDI_PAUSED] \<and> playerstate (song ?r) = NATIVE_MIDI_PAUSED
         \<or> state_writes as = [NATIVE_MIDI_PLAYING] \<and> playerstate (song ?r) = NATIVE_MIDI_PLAYING"
    by blast
  have "ext_quiet ?r m'"
    using ext_quiet_trans [OF ext_quiet_read_sequencer loop_body_quiet_tail [OF assms True]] .
  then obtain bs where
    b: "trace m' = trace ?r @ bs" "state_writes bs = []"
       "playerstate (song m') = playerstate (song ?r)"
       "playerthread (song m') = playerthread (song ?r)" "thread m' = thread ?r"
    by (auto simp: ext_quiet_def)
  have "trace m' = trace m @ (as @ bs)" using a(1) b(1) by simp
  moreover have "state_writes (as @ bs) = state_writes as" using b(2) by simp
  ultimately show ?thesis using a(2,3,4) b(3,4,5) by metis
qed

lemma all_off_ext:
  "trace (all_off i m) = trace m @
      [EVENT_OUTPUT_DIRECT (snd_seq_ev_set_controller (of_nat i) MIDI_CTL_SUSTAIN 0 (evt m)),
       EVENT_OUTPUT_DIRECT (snd_seq_ev_set_controller (of_nat i) MIDI_CTL_ALL_NOTES_OFF 0 (evt m)),
       EVENT_OUTPUT_DIRECT (snd_seq_ev_set_controller (of_nat i) MIDI_CTL_RESET_CONTROLLERS 0 (evt m)),
       EVENT_OUTPUT_DIRECT (snd_seq_ev_set_controller (of_nat i) MIDI_CTL_ALL_SOUNDS_OFF 0 (evt m))]
   \<and> song (all_off i m) = song m \<and> thread (all_off i m) = thread m"
  by (simp add: all_off_def Let_def snd_seq_ev_set_controller_def)

lemma fold_all_off_ext:
  "\<exists>as. trace (fold all_off is m) = trace m @ as \<and> state_writes as = []
       \<and> length as = 4 * length is
       \<and> (\<forall>a \<in> set as. \<exists>ev. a = EVENT_OUTPUT_DIRECT ev)
       \<and> song (fold all_off is m) = song m \<and> thread (fold all_off is m) = thread m"
proof (induction "is" arbitrary: m)
  case Nil
  then show ?case by simp
next
  case (Cons i "is")
  from Cons [of "all_off i m"] obtain as where
    a: "trace (fold all_off is (all_off i m)) = trace (all_off i m) @ as" "state_writes as = []"
       "length as = 4 * length is" "\<forall>a \<in> set as. \<exists>ev. a = EVENT_OUTPUT_DIRECT ev"
       "song (fold all_off is (all_off i m)) = song (all_off i m)"
       "thread (fold all_off is (all_off i m)) = thread (all_off i m)"
    by blast
  let ?h = "[EVENT_OUTPUT_DIRECT (snd_seq_ev_set_controller (of_nat i) MIDI_CTL_SUSTAIN 0 (evt m)),
       EVENT_OUTPUT_DIRECT (snd_seq_ev_set_controller (of_nat i) MIDI_CTL_ALL_NOTES_OFF 0 (evt m)),
       EVENT_OUTPUT_DIRECT (snd_seq_ev_set_controller (of_nat i) MIDI_CTL_RESET_CONTROLLERS 0 (evt m)),
       EVENT_OUTPUT_DIRECT (snd_seq_ev_set_controller (of_nat i) MIDI_CTL_ALL_SOUNDS_OFF 0 (evt m))]"
  have "trace (fold all_off (i # is) m) = trace m @ (?h @ as)"
    using a(1) all_off_ext [of i m] by simp
  moreover have "state_writes (?h @ as) = []" using a(2) by simp
  moreover have "length (?h @ as) = 4 * length (i # is)" using a(3) by simp
  moreover have "\<forall>a \<in> set (?h @ as). \<exists>ev. a = EVENT_OUTPUT_DIRECT ev" using a(4) by auto
  moreover have "song (fold all_off (i # is) m) = song m" "thread (fold all_off (i # is) m) = thread m"
    using a(5,6) all_off_ext [of i m] by simp_all
  ultimately show ?case by blast
qed

lemma thread_cleanup_ext:
  "\<exists>post. trace (thread_cleanup m) =
            trace m @ ATOMIC_SET NATIVE_MIDI_STOPPED
                    # [NONBLOCK False, DROP_OUTPUT, STOP_QUEUE (queue m), DRAIN_OUTPUT,
                       FREE_QUEUE (queue m)] @ post
        \<and> state_writes post = [] \<and> length post = 4 * MIDI_CHANNELS
        \<and> (\<forall>a \<in> set post. \<exists>ev. a = EVENT_OUTPUT_DIRECT ev)
        \<and> song (thread_cleanup m) = (song m)\<lparr>playerstate := NATIVE_MIDI_STOPPED\<rparr>
        \<and> thread (thread_cleanup m) = thread m"
proof -
  let ?m3 = "(emit [NONBLOCK False, DROP_OUTPUT, STOP_QUEUE (queue m), DRAIN_OUTPUT, FREE_QUEUE (queue m)]
               (SDL_AtomicSet NATIVE_MIDI_STOPPED m))
             \<lparr>evt := snd_seq_ev_set_direct
                 (evt (emit [NONBLOCK False, DROP_OUTPUT, STOP_QUEUE (queue m), DRAIN_OUTPUT, FREE_QUEUE (queue m)]
               (SDL_AtomicSet NATIVE_MIDI_STOPPED m)))\<rparr>"
  have c: "thread_cleanup m = fold all_off [0 ..< MIDI_CHANNELS] ?m3"
    by (simp add: thread_cleanup_def Let_def)
  from fold_all_off_ext [of "[0 ..< MIDI_CHANNELS]" ?m3] obtain post where
    p: "trace (fold all_off [0 ..< MIDI_CHANNELS] ?m3) = trace ?m3 @ post" "state_writes post = []"
       "length post = 4 * length [0 ..< MIDI_CHANNELS]"
       "\<forall>a \<in> set post. \<exists>ev. a = EVENT_OUTPUT_DIRECT ev"
       "song (fold all_off [0 ..< MIDI_CHANNELS] ?m3) = song ?m3"
       "thread (fold all_off [0 ..< MIDI_CHANNELS] ?m3) = thread ?m3"
    by blast
  have t3: "trace ?m3 = trace m @ ATOMIC_SET NATIVE_MIDI_STOPPED
                    # [NONBLOCK False, DROP_OUTPUT, STOP_QUEUE (queue m), DRAIN_OUTPUT,
                       FREE_QUEUE (queue m)]"
       "song ?m3 = (song m)\<lparr>playerstate := NATIVE_MIDI_STOPPED\<rparr>" "thread ?m3 = thread m"
    by (simp_all add: SDL_AtomicSet_def)
  from p t3 c show ?thesis by auto
qed

lemma sys_inv_thread_wake:
  assumes "sys_inv m" and "thread m = LOOPING"
  shows "sys_inv (thread_wake w m)"
proof -
  let ?m0 = "if poll_ret w \<le> 0 then m else m\<lparr>chan := tl (chan m)\<rparr>"
  obtain c m1 where b: "loop_body (from_chan m w) ?m0 = (c, m1)"
    by (cases "loop_body (from_chan m w) ?m0")
  have m0: "trace ?m0 = trace m" "song ?m0 = song m" "thread ?m0 = thread m" by simp_all
  from assms(1) have "phase_ok (thread m) (playerstate (song m)) (playerthread (song m))"
    unfolding sys_inv_def by blast
  with assms(2) have ph: "playerthread (song m) \<noteq> None"
      "playerstate (song m) = NATIVE_MIDI_PLAYING \<or> playerstate (song m) = NATIVE_MIDI_PAUSED"
    by simp_all
  from loop_body_ext [OF b] m0 obtain as where
    e: "trace m1 = trace m @ as" "playerthread (song m1) = playerthread (song m)"
       "thread m1 = thread m"
       "state_writes as = [] \<and> playerstate (song m1) = playerstate (song m)
         \<or> state_writes as = [NATIVE_MIDI_PAUSED] \<and> playerstate (song m1) = NATIVE_MIDI_PAUSED
         \<or> state_writes as = [NATIVE_MIDI_PLAYING] \<and> playerstate (song m1) = NATIVE_MIDI_PLAYING"
    by auto
  from e(4) ph(2) have f: "follows (playerstate (song m)) (state_writes as)"
      "playerstate (song m1) = last (playerstate (song m) # state_writes as)"
      "playerstate (song m1) = NATIVE_MIDI_PLAYING \<or> playerstate (song m1) = NATIVE_MIDI_PAUSED"
    by auto
  have i1: "sys_inv (m1\<lparr>thread := ph'\<rparr>)" if "ph' = LOOPING \<or> ph' = STUCK" for ph'
  proof (rule sys_inv_extend [OF assms(1)])
    show "trace (m1\<lparr>thread := ph'\<rparr>) = trace m @ as" using e(1) by simp
    show "follows (playerstate (song m)) (state_writes as)" by (rule f(1))
    show "playerstate (song (m1\<lparr>thread := ph'\<rparr>)) = last (playerstate (song m) # state_writes as)"
      using f(2) by simp
    show "phase_ok (thread (m1\<lparr>thread := ph'\<rparr>)) (playerstate (song (m1\<lparr>thread := ph'\<rparr>)))
            (playerthread (song (m1\<lparr>thread := ph'\<rparr>)))"
      using that f(3) e(2) ph(1) by auto
  qed
  have i2: "sys_inv ((thread_cleanup m1)\<lparr>thread := RETURNED\<rparr>)"
  proof -
    from thread_cleanup_ext [of m1] obtain post where
      p: "trace (thread_cleanup m1) =
            trace m1 @ ATOMIC_SET NATIVE_MIDI_STOPPED
                    # [NONBLOCK False, DROP_OUTPUT, STOP_QUEUE (queue m1), DRAIN_OUTPUT,
                       FREE_QUEUE (queue m1)] @ post"
         "state_writes post = []"
         "song (thread_cleanup m1) = (song m1)\<lparr>playerstate := NATIVE_MIDI_STOPPED\<rparr>"
      by blast
    let ?bs = "as @ ATOMIC_SET NATIVE_MIDI_STOPPED
                    # [NONBLOCK False, DROP_OUTPUT, STOP_QUEUE (queue m1), DRAIN_OUTPUT,
                       FREE_QUEUE (queue m1)] @ post"
    have w: "state_writes ?bs = state_writes as @ [NATIVE_MIDI_STOPPED]" using p(2) by simp
    show ?thesis
    proof (rule sys_inv_extend [OF assms(1), where as = ?bs])
      show "trace ((thread_cleanup m1)\<lparr>thread := RETURNED\<rparr>) = trace m @ ?bs"
        using p(1) e(1) by simp
      show "follows (playerstate (song m)) (state_writes ?bs)"
        using e(4) ph(2) unfolding w by (auto simp: follows_append)
      show "playerstate (song ((thread_cleanup m1)\<lparr>thread := RETURNED\<rparr>))
              = last (playerstate (song m) # state_writes ?bs)"
        unfolding w using p(3) by simp
      show "phase_ok (thread ((thread_cleanup m1)\<lparr>thread := RETURNED\<rparr>))
              (playerstate (song ((thread_cleanup m1)\<lparr>thread := RETURNED\<rparr>)))
              (playerthread (song ((thread_cleanup m1)\<lparr>thread := RETURNED\<rparr>)))"
        using p(3) by simp
    qed
  qed
  have "thread_wake w m =
          (case c of CONTINUE \<Rightarrow> m1 | BREAK \<Rightarrow> (thread_cleanup m1)\<lparr>thread := RETURNED\<rparr>
           | SPINNING \<Rightarrow> m1\<lparr>thread := STUCK\<rparr> | NULL_DEREF \<Rightarrow> m1\<lparr>thread := STUCK\<rparr>)"
    using b by (cases c) (simp_all add: thread_wake_def Let_def)
  moreover have "m1\<lparr>thread := LOOPING\<rparr> = m1" using e(3) assms(2) by simp
  ultimately show ?thesis
    using i1 [of LOOPING] i1 [of STUCK] i2 by (cases c) simp_all
qed

lemma phase_of_sys_inv:
  "sys_inv m \<Longrightarrow> phase_ok (thread m) (playerstate (song m)) (playerthread (song m))"
  unfolding sys_inv_def by blast

lemma sys_inv_thread_setup:
  assumes "sys_inv m" and "thread m = CREATED"
  shows "sys_inv (thread_step (SETUP q rets) m)"
proof (cases "thread_setup q rets m")
  case None
  have "sys_inv (m\<lparr>thread := STUCK\<rparr>)"
  proof (rule sys_inv_extend [OF assms(1), where as = "[]"])
    show "phase_ok (thread (m\<lparr>thread := STUCK\<rparr>)) (playerstate (song (m\<lparr>thread := STUCK\<rparr>)))
            (playerthread (song (m\<lparr>thread := STUCK\<rparr>)))"
      using phase_of_sys_inv [OF assms(1)] assms(2) by simp
  qed simp_all
  with None assms(2) show ?thesis by simp
next
  case (Some m1)
  then obtain as where
    a: "output_retry (echo_event (song m) q) rets = Some as"
    by (auto simp: thread_setup_def Let_def enqueue_echo_event_def split: option.splits)
  let ?bs = "[ALLOC_QUEUE q, START_QUEUE q, POLL_DESCRIPTORS, NONBLOCK True,
              SET_QUEUE_TEMPO q 500000 (ppqn (song m))] @ as @ [ATOMIC_SET NATIVE_MIDI_PLAYING]"
  from Some a have m1: "trace m1 = trace m @ ?bs"
      "song m1 = (song m)\<lparr>playerstate := NATIVE_MIDI_PLAYING\<rparr>"
    by (auto simp: thread_setup_def Let_def enqueue_echo_event_def SDL_AtomicSet_def)
  from output_retry_obs [OF a] have w: "state_writes ?bs = [NATIVE_MIDI_PLAYING]" by simp
  from phase_of_sys_inv [OF assms(1)] assms(2) have
    ph: "playerthread (song m) \<noteq> None" "playerstate (song m) = NATIVE_MIDI_STARTING"
    by simp_all
  have "sys_inv (m1\<lparr>thread := LOOPING\<rparr>)"
  proof (rule sys_inv_extend [OF assms(1), where as = ?bs])
    show "trace (m1\<lparr>thread := LOOPING\<rparr>) = trace m @ ?bs" using m1(1) by simp
    show "follows (playerstate (song m)) (state_writes ?bs)" unfolding w using ph(2) by simp
    show "playerstate (song (m1\<lparr>thread := LOOPING\<rparr>)) = last (playerstate (song m) # state_writes ?bs)"
      unfolding w using m1(2) by simp
    show "phase_ok (thread (m1\<lparr>thread := LOOPING\<rparr>)) (playerstate (song (m1\<lparr>thread := LOOPING\<rparr>)))
            (playerthread (song (m1\<lparr>thread := LOOPING\<rparr>)))"
      using m1(2) ph(1) by simp
  qed
  with Some assms(2) show ?thesis by simp
qed

lemma sys_inv_thread_step: "sys_inv m \<Longrightarrow> sys_inv (thread_step i m)"
proof (cases i)
  case (SETUP q rets)
  assume "sys_inv m"
  then show ?thesis using SETUP sys_inv_thread_setup [of m q rets] by (cases "thread m = CREATED") simp_all
next
  case (WAKE w)
  assume "sys_inv m"
  then show ?thesis using WAKE sys_inv_thread_wake [of m w] by (cases "thread m = LOOPING") simp_all
qed

lemma sys_inv_fold_thread_step: "sys_inv m \<Longrightarrow> sys_inv (fold thread_step ins m)"
  by (induction ins arbitrary: m) (simp_all add: sys_inv_thread_step)

lemma sys_inv_quiet:
  assumes "sys_inv m" and "trace m' = trace m @ as" and "state_writes as = []"
      and "song m' = song m" and "thread m' = thread m"
  shows "sys_inv m'"
proof (rule sys_inv_extend [OF assms(1,2)])
  show "follows (playerstate (song m)) (state_writes as)" using assms(3) by simp
  show "playerstate (song m') = last (playerstate (song m) # state_writes as)"
    using assms(3,4) by simp
  show "phase_ok (thread m') (playerstate (song m')) (playerthread (song m'))"
    using phase_of_sys_inv [OF assms(1)] assms(4,5) by simp
qed

lemma sys_inv_sock_write: "sys_inv m \<Longrightarrow> sys_inv (sock_write pkt r m)"
  using sys_inv_quiet [of m "sock_write pkt r m" "[SOCK_WRITE pkt r]"]
  by (simp add: sock_write_def)

lemma sys_inv_SDL_WaitThread:
  assumes "sys_inv m"
  shows "sys_inv (SDL_WaitThread t ins m)"
proof -
  have "sys_inv (emit [WAIT_THREAD t] m)"
    using assms sys_inv_quiet [of m "emit [WAIT_THREAD t] m" "[WAIT_THREAD t]"] by simp
  then show ?thesis unfolding SDL_WaitThread_def by (rule sys_inv_fold_thread_step)
qed

lemma playerthread_thread_step:
  "playerthread (song (thread_step j x)) = playerthread (song x)"
proof (cases j)
  case (SETUP q rets)
  then show ?thesis
    by (auto simp: thread_setup_def Let_def enqueue_echo_event_def SDL_AtomicSet_def
          split: option.splits)
next
  case (WAKE w)
  let ?x0 = "if poll_ret w \<le> 0 then x else x\<lparr>chan := tl (chan x)\<rparr>"
  obtain c x1 where b: "loop_body (from_chan x w) ?x0 = (c, x1)"
    by (cases "loop_body (from_chan x w) ?x0")
  from loop_body_ext [OF b] have "playerthread (song x1) = playerthread (song x)" by auto
  moreover have "song (thread_cleanup x1) = (song x1)\<lparr>playerstate := NATIVE_MIDI_STOPPED\<rparr>"
    using thread_cleanup_ext [of x1] by blast
  ultimately show ?thesis using WAKE b
    by (cases c) (simp_all add: thread_wake_def Let_def)
qed

lemma playerthread_SDL_WaitThread:
  "playerthread (song (SDL_WaitThread t ins m)) = playerthread (song m)"
proof -
  have "playerthread (song (fold thread_step js x)) = playerthread (song x)" for js x
    by (induction js arbitrary: x) (simp_all add: playerthread_thread_step)
  then show ?thesis by (simp add: SDL_WaitThread_def)
qed

lemma sys_inv_start_thread:
  assumes "sys_inv m"
      and "playerstate (song m) = NATIVE_MIDI_STOPPED \<or> playerstate (song m) = NATIVE_MIDI_STARTING"
      and "thread m = NO_THREAD \<or> thread m = RETURNED"
  shows "sys_inv (start_thread created loops m)"
proof (rule sys_inv_extend [OF assms(1), where as = "[ATOMIC_SET NATIVE_MIDI_STARTING, CREATE_THREAD]"])
  show "trace (start_thread created loops m) = trace m @ [ATOMIC_SET NATIVE_MIDI_STARTING, CREATE_THREAD]"
    by (simp add: start_thread_def Let_def SDL_AtomicSet_def)
  show "follows (playerstate (song m)) (state_writes [ATOMIC_SET NATIVE_MIDI_STARTING, CREATE_THREAD])"
    using assms(2) by auto
  show "playerstate (song (start_thread created loops m)) =
          last (playerstate (song m) # state_writes [ATOMIC_SET NATIVE_MIDI_STARTING, CREATE_THREAD])"
    by (simp add: start_thread_def Let_def SDL_AtomicSet_def)
  show "phase_ok (thread (start_thread created loops m))
          (playerstate (song (start_thread created loops m)))
          (playerthread (song (start_thread created loops m)))"
    using assms(3) by (auto simp: start_thread_def Let_def SDL_AtomicSet_def)
qed

lemma sys_inv_after_join:
  assumes "sys_inv m" and "playerthread (song m) = Some t"
  shows "sys_inv (SDL_WaitThread t ins m)"
    and "thread (SDL_WaitThread t ins m) = RETURNED \<Longrightarrow>
           playerstate (song (SDL_WaitThread t ins m)) = NATIVE_MIDI_STOPPED"
proof -
  show i: "sys_inv (SDL_WaitThread t ins m)" using assms(1) by (rule sys_inv_SDL_WaitThread)
  assume "thread (SDL_WaitThread t ins m) = RETURNED"
  with phase_of_sys_inv [OF i] assms(2)
  show "playerstate (song (SDL_WaitThread t ins m)) = NATIVE_MIDI_STOPPED"
    by (auto simp: playerthread_SDL_WaitThread)
qed

lemma sys_inv_join_then_start:
  assumes "sys_inv m" and "playerthread (song m) = Some t"
  shows "case (if thread (SDL_WaitThread t ins m) = RETURNED
               then RETURNS (Some (start_thread created loops (SDL_WaitThread t ins m)))
               else BLOCKS (SDL_WaitThread t ins m)) of
           RETURNS None \<Rightarrow> False | RETURNS (Some m') \<Rightarrow> sys_inv m' | BLOCKS m' \<Rightarrow> sys_inv m'"
proof (cases "thread (SDL_WaitThread t ins m) = RETURNED")
  case True
  from sys_inv_after_join(2) [OF assms True]
  have "playerstate (song (SDL_WaitThread t ins m)) = NATIVE_MIDI_STOPPED" .
  then have "sys_inv (start_thread created loops (SDL_WaitThread t ins m))"
    using sys_inv_start_thread [OF sys_inv_after_join(1) [OF assms]] True by blast
  with True show ?thesis by simp
next
  case False
  with sys_inv_after_join(1) [OF assms] show ?thesis by simp
qed

lemma sys_inv_native_midi_start:
  assumes "sys_inv m"
  shows "case native_midi_start ins r created cur loops (Some m) of
           RETURNS None \<Rightarrow> False | RETURNS (Some m') \<Rightarrow> sys_inv m' | BLOCKS m' \<Rightarrow> sys_inv m'"
proof (cases "playerthread (song m)")
  case None
  with phase_of_sys_inv [OF assms] have
    "playerstate (song m) = NATIVE_MIDI_STOPPED \<or> playerstate (song m) = NATIVE_MIDI_STARTING"
    "thread m = NO_THREAD \<or> thread m = RETURNED"
    by (cases "thread m"; simp)+
  from sys_inv_start_thread [OF assms this] None show ?thesis
    by (simp add: native_midi_start_def)
next
  case (Some t)
  let ?w = "sock_write pkt_thread_cmd_quit r m"
  have iw: "sys_inv ?w" using assms by (rule sys_inv_sock_write)
  have hw: "playerthread (song ?w) = Some t" using Some by simp
  consider (noquit) "\<not> state_val cur > state_val NATIVE_MIDI_STOPPED"
    | (failed) "state_val cur > state_val NATIVE_MIDI_STOPPED" "r \<noteq> CMD_PKT_LEN"
    | (sent) "state_val cur > state_val NATIVE_MIDI_STOPPED" "r = CMD_PKT_LEN"
    by blast
  then show ?thesis
  proof cases
    case noquit
    then have "native_midi_start ins r created cur loops (Some m) =
        (if thread (SDL_WaitThread t ins m) = RETURNED
               then RETURNS (Some (start_thread created loops (SDL_WaitThread t ins m)))
               else BLOCKS (SDL_WaitThread t ins m))"
      using Some by (simp add: native_midi_start_def Let_def)
    with sys_inv_join_then_start [OF assms Some, of ins created loops] show ?thesis by simp
  next
    case failed
    then have "native_midi_start ins r created cur loops (Some m) = RETURNS (Some ?w)"
      using Some by (simp add: native_midi_start_def Let_def)
    with iw show ?thesis by simp
  next
    case sent
    then have "native_midi_start ins r created cur loops (Some m) =
        (if thread (SDL_WaitThread t ins ?w) = RETURNED
               then RETURNS (Some (start_thread created loops (SDL_WaitThread t ins ?w)))
               else BLOCKS (SDL_WaitThread t ins ?w))"
      using Some by (simp add: native_midi_start_def Let_def)
    with sys_inv_join_then_start [OF iw hw, of ins created loops] show ?thesis by simp
  qed
qed

lemma sys_inv_native_midi_stop:
  assumes "sys_inv m"
  shows "case native_midi_stop ins r (Some m) of
           RETURNS None \<Rightarrow> False | RETURNS (Some m') \<Rightarrow> sys_inv m' | BLOCKS m' \<Rightarrow> sys_inv m'"
proof (cases "playerthread (song m)")
  case None
  with assms show ?thesis by (simp add: native_midi_stop_def)
next
  case (Some t)
  let ?w = "sock_write pkt_thread_cmd_quit r m"
  have iw: "sys_inv ?w" using assms by (rule sys_inv_sock_write)
  have hw: "playerthread (song ?w) = Some t" using Some by simp
  have join: "case (if thread (SDL_WaitThread t ins x) = RETURNED
               then RETURNS (Some ((SDL_WaitThread t ins x)
                      \<lparr>song := (song (SDL_WaitThread t ins x))\<lparr>playerthread := None\<rparr>\<rparr>))
               else BLOCKS (SDL_WaitThread t ins x)) of
           RETURNS None \<Rightarrow> False | RETURNS (Some m') \<Rightarrow> sys_inv m' | BLOCKS m' \<Rightarrow> sys_inv m'"
    if x: "sys_inv x" "playerthread (song x) = Some t" for x
  proof (cases "thread (SDL_WaitThread t ins x) = RETURNED")
    case True
    let ?j = "SDL_WaitThread t ins x"
    from sys_inv_after_join [OF x] True have
      j: "sys_inv ?j" "playerstate (song ?j) = NATIVE_MIDI_STOPPED" by simp_all
    have "sys_inv (?j\<lparr>song := (song ?j)\<lparr>playerthread := None\<rparr>\<rparr>)"
    proof (rule sys_inv_extend [OF j(1), where as = "[]"])
      show "phase_ok (thread (?j\<lparr>song := (song ?j)\<lparr>playerthread := None\<rparr>\<rparr>))
              (playerstate (song (?j\<lparr>song := (song ?j)\<lparr>playerthread := None\<rparr>\<rparr>)))
              (playerthread (song (?j\<lparr>song := (song ?j)\<lparr>playerthread := None\<rparr>\<rparr>)))"
        using True j(2) by simp
    qed simp_all
    with True show ?thesis by simp
  next
    case False
    with sys_inv_after_join(1) [OF x] show ?thesis by simp
  qed
  consider (noquit) "\<not> state_val (playerstate (song m)) > state_val NATIVE_MIDI_STOPPED"
    | (failed) "state_val (playerstate (song m)) > state_val NATIVE_MIDI_STOPPED" "r \<noteq> CMD_PKT_LEN"
    | (sent) "state_val (playerstate (song m)) > state_val NATIVE_MIDI_STOPPED" "r = CMD_PKT_LEN"
    by blast
  then show ?thesis
  proof cases
    case noquit
    then have "native_midi_stop ins r (Some m) =
        (if thread (SDL_WaitThread t ins m) = RETURNED
               then RETURNS (Some ((SDL_WaitThread t ins m)
                      \<lparr>song := (song (SDL_WaitThread t ins m))\<lparr>playerthread := None\<rparr>\<rparr>))
               else BLOCKS (SDL_WaitThread t ins m))"
      using Some by (simp add: native_midi_stop_def Let_def)
    with join [OF assms Some] show ?thesis by simp
  next
    case failed
    then have "native_midi_stop ins r (Some m) = RETURNS (Some ?w)"
      using Some by (simp add: native_midi_stop_def Let_def)
    with iw show ?thesis by simp
  next
    case sent
    then have "native_midi_stop ins r (Some m) =
        (if thread (SDL_WaitThread t ins ?w) = RETURNED
               then RETURNS (Some ((SDL_WaitThread t ins ?w)
                      \<lparr>song := (song (SDL_WaitThread t ins ?w))\<lparr>playerthread := None\<rparr>\<rparr>))
               else BLOCKS (SDL_WaitThread t ins ?w))"
      using Some by (simp add: native_midi_stop_def Let_def)
    with join [OF iw hw] show ?thesis by simp
  qed
qed

lemma sys_inv_step:
  assumes "sys_inv m"
  shows "case step x m of
           RETURNS None \<Rightarrow> False | RETURNS (Some m') \<Rightarrow> sys_inv m' | BLOCKS m' \<Rightarrow> sys_inv m'"
proof (cases x)
  case (CALL_START ins r created cur loops)
  with sys_inv_native_midi_start [OF assms, of ins r created cur loops] show ?thesis by simp
next
  case (CALL_PAUSE r)
  with assms show ?thesis by (simp add: native_midi_pause_def sys_inv_sock_write)
next
  case (CALL_RESUME r)
  with assms show ?thesis by (simp add: native_midi_resume_def sys_inv_sock_write)
next
  case (CALL_STOP ins r)
  with sys_inv_native_midi_stop [OF assms, of ins r] show ?thesis by simp
next
  case (CALL_SETVOLUME r v)
  with assms show ?thesis by (simp add: native_midi_setvolume_def sys_inv_sock_write)
next
  case (THREAD_RUNS i)
  with assms show ?thesis by (simp add: sys_inv_thread_step)
qed

lemma sys_inv_exec: "sys_inv m \<Longrightarrow> sys_inv (exec xs m)"
proof (induction xs arbitrary: m)
  case Nil
  then show ?case by simp
next
  case (Cons x xs)
  from sys_inv_step [OF Cons.prems, of x] Cons.IH show ?case
    by (auto split: outcome.splits option.splits)
qed

lemma sys_inv_loadsong:
  "native_midi_loadsong_RW ok evs pq opened dst hint = Some m0 \<Longrightarrow> sys_inv m0"
  by (auto simp: native_midi_loadsong_RW_def sys_inv_def split: if_splits option.splits)

lemma thread_wake_RETURNED:
  assumes "thread (thread_wake w m) = RETURNED" and "thread m = LOOPING"
  shows "\<exists>m1. thread_wake w m = (thread_cleanup m1)\<lparr>thread := RETURNED\<rparr>"
proof -
  let ?m0 = "if poll_ret w \<le> 0 then m else m\<lparr>chan := tl (chan m)\<rparr>"
  obtain c m1 where b: "loop_body (from_chan m w) ?m0 = (c, m1)"
    by (cases "loop_body (from_chan m w) ?m0")
  from loop_body_ext [OF b] assms(2) have "thread m1 = LOOPING" by auto
  with b assms(1) show ?thesis by (cases c) (auto simp: thread_wake_def Let_def)
qed

text \<open>
  Claim C8. Take a loaded song and any run of the process on it: calls of the control
  surface and inputs of its player thread, in any order and with any answers of the
  environment. Every write of the playback state in the run takes an edge of the diagram
  (a self-loop included), starting from STOPPED, and the playback state is always the last
  state written. The only edges into PAUSED leave PLAYING and PAUSED itself, so PAUSED is
  written only after PLAYING was. A thread that returns from a wake has gone through the
  code after the loop, which writes STOPPED first and only then runs the cleanup: the
  switch to blocking mode, the drop of the output, the stop, drain and release of the
  queue, and the four controller messages for each of the 16 channels, none of which
  writes the state.
\<close>

theorem playback_state_machine:
  assumes "native_midi_loadsong_RW ok evs pq opened dst hint = Some m0"
  shows "follows NATIVE_MIDI_STOPPED (state_writes (trace (exec xs m0)))
       \<and> playerstate (song (exec xs m0)) =
           last (NATIVE_MIDI_STOPPED # state_writes (trace (exec xs m0)))
       \<and> (\<forall>s. diagram_edge s NATIVE_MIDI_PAUSED \<longrightarrow>
              s = NATIVE_MIDI_PLAYING \<or> s = NATIVE_MIDI_PAUSED)
       \<and> (\<forall>w m. thread m = LOOPING \<and> thread (thread_wake w m) = RETURNED \<longrightarrow>
              (\<exists>m1. thread_wake w m = (thread_cleanup m1)\<lparr>thread := RETURNED\<rparr>))
       \<and> (\<forall>m. \<exists>post. trace (thread_cleanup m) =
                trace m @ ATOMIC_SET NATIVE_MIDI_STOPPED
                    # [NONBLOCK False, DROP_OUTPUT, STOP_QUEUE (queue m), DRAIN_OUTPUT,
                       FREE_QUEUE (queue m)] @ post
              \<and> state_writes post = [] \<and> length post = 4 * MIDI_CHANNELS
              \<and> (\<forall>a \<in> set post. \<exists>ev. a = EVENT_OUTPUT_DIRECT ev))"
proof -
  from sys_inv_exec [OF sys_inv_loadsong [OF assms], of xs] have
    1: "follows NATIVE_MIDI_STOPPED (state_writes (trace (exec xs m0)))"
       "playerstate (song (exec xs m0)) =
           last (NATIVE_MIDI_STOPPED # state_writes (trace (exec xs m0)))"
    unfolding sys_inv_def by blast+
  have 2: "diagram_edge s NATIVE_MIDI_PAUSED \<longrightarrow> s = NATIVE_MIDI_PLAYING \<or> s = NATIVE_MIDI_PAUSED" for s
    by (cases s) simp_all
  have 3: "thread m = LOOPING \<and> thread (thread_wake w m) = RETURNED \<longrightarrow>
              (\<exists>m1. thread_wake w m = (thread_cleanup m1)\<lparr>thread := RETURNED\<rparr>)" for w m
    using thread_wake_RETURNED [of w m] by blast
  have 4: "\<exists>post. trace (thread_cleanup m) =
                trace m @ ATOMIC_SET NATIVE_MIDI_STOPPED
                    # [NONBLOCK False, DROP_OUTPUT, STOP_QUEUE (queue m), DRAIN_OUTPUT,
                       FREE_QUEUE (queue m)] @ post
              \<and> state_writes post = [] \<and> length post = 4 * MIDI_CHANNELS
              \<and> (\<forall>a \<in> set post. \<exists>ev. a = EVENT_OUTPUT_DIRECT ev)" for m
    using thread_cleanup_ext [of m] by blast
  from 1 2 3 4 show ?thesis by blast
qed

lemma thread_cleanup_writes:
  "state_writes (trace (thread_cleanup m)) = state_writes (trace m) @ [NATIVE_MIDI_STOPPED]"
  using thread_cleanup_ext [of m] by auto

lemma thread_cleanup_song:
  "song (thread_cleanup m) = (song m)\<lparr>playerstate := NATIVE_MIDI_STOPPED\<rparr>"
  using thread_cleanup_ext [of m] by blast

lemma demo_run_writes:
  "state_writes (trace (exec demo_run demo_machine)) =
     [NATIVE_MIDI_STOPPED, NATIVE_MIDI_STARTING, NATIVE_MIDI_PLAYING, NATIVE_MIDI_PAUSED,
      NATIVE_MIDI_STOPPED]"
  by (simp add: demo_run_def demo_machine_def demo_song_def native_midi_start_def start_thread_def
        SDL_AtomicSet_def thread_setup_def enqueue_echo_event_def EAGAIN_def native_midi_pause_def
        sock_write_def CMD_PKT_LEN_def pkt_thread_cmd_pause_def pkt_thread_cmd_quit_def
        THREAD_CMD_QUIT_def THREAD_CMD_PAUSE_def THREAD_CMD_RESUME_def THREAD_CMD_SETVOL_def
        thread_wake_def from_chan_def command_wake_def loop_body_def read_command_def
        read_sequencer_def handle_command_def send_volume_sysex_def stop_queue_def
        continue_queue_def send_event_def native_midi_stop_def SDL_WaitThread_def Let_def
        thread_cleanup_writes thread_cleanup_song emit_def)

theorem playback_state_machine_witness:
  "native_midi_loadsong_RW True [demo_note, demo_bend, demo_tempo] 480 (Some (128, 0))
      \<lparr>client = 14, port = 0\<rparr> True = Some demo_machine
   \<and> state_writes (trace (exec demo_run demo_machine)) =
       [NATIVE_MIDI_STOPPED, NATIVE_MIDI_STARTING, NATIVE_MIDI_PLAYING, NATIVE_MIDI_PAUSED,
        NATIVE_MIDI_STOPPED]
   \<and> follows NATIVE_MIDI_STOPPED (state_writes (trace (exec demo_run demo_machine)))
   \<and> playerstate (song (exec demo_run demo_machine)) = NATIVE_MIDI_STOPPED"
proof -
  have l: "native_midi_loadsong_RW True [demo_note, demo_bend, demo_tempo] 480 (Some (128, 0))
              \<lparr>client = 14, port = 0\<rparr> True = Some demo_machine"
    by (simp add: native_midi_loadsong_RW_def demo_machine_def demo_song_def end_time_def
          demo_tempo_def)
  from playback_state_machine [OF l, of demo_run] have
    f: "follows NATIVE_MIDI_STOPPED (state_writes (trace (exec demo_run demo_machine)))"
    and p: "playerstate (song (exec demo_run demo_machine)) =
              last (NATIVE_MIDI_STOPPED # state_writes (trace (exec demo_run demo_machine)))"
    by blast+
  from p have "playerstate (song (exec demo_run demo_machine)) = NATIVE_MIDI_STOPPED"
    unfolding demo_run_writes by simp
  with l f demo_run_writes show ?thesis by blast
qed

section \<open>Loop counts when poll fails\<close>

lemma player_thread_poll_failure:
  assumes "r \<noteq> - EAGAIN" and "poll_ret w \<le> 0"
  shows "fst (native_midi_player_thread q (r # rest) (w # ws) m) = BREAK"
    and "evtlist (song m) \<noteq> [] \<Longrightarrow>
         passes_log (since m (snd (native_midi_player_thread q (r # rest) (w # ws) m))) = []"
proof -
  from thread_setup_Some [OF assms(1), of q rest m] obtain m1 where
    m1: "thread_setup q (r # rest) m = Some m1" by blast
  have l: "run_loop (w # ws) m1 = (BREAK, m1)"
    using loop_body_poll_failure [OF assms(2), of m1] by simp
  from m1 l have t: "native_midi_player_thread q (r # rest) (w # ws) m = (BREAK, thread_cleanup m1)"
    by (simp add: native_midi_player_thread_def)
  then show "fst (native_midi_player_thread q (r # rest) (w # ws) m) = BREAK" by simp
  assume "evtlist (song m) \<noteq> []"
  from thread_setup_pass_inv [OF m1] obtain d x where
    x: "evtlist (song m) = d @ event m1" "trace m1 = trace m @ x"
       "passes_log x = concat (replicate 0 (evtlist (song m))) @ d"
       "event m1 = evtlist (song m1)" "evtlist (song m1) = evtlist (song m)"
    by (auto simp: pass_inv_def log_inv_def)
  from x(1,4,5) have "d = []" by simp
  with x(3) have px: "passes_log x = []" by simp
  from thread_cleanup_ext [of m1] obtain post where
    p: "trace (thread_cleanup m1) =
            trace m1 @ ATOMIC_SET NATIVE_MIDI_STOPPED
                    # [NONBLOCK False, DROP_OUTPUT, STOP_QUEUE (queue m1), DRAIN_OUTPUT,
                       FREE_QUEUE (queue m1)] @ post"
       "\<forall>a \<in> set post. \<exists>ev. a = EVENT_OUTPUT_DIRECT ev"
    by blast
  from p(1) x(2) have "since m (thread_cleanup m1) =
      x @ ATOMIC_SET NATIVE_MIDI_STOPPED
                    # [NONBLOCK False, DROP_OUTPUT, STOP_QUEUE (queue m1), DRAIN_OUTPUT,
                       FREE_QUEUE (queue m1)] @ post"
    by (simp add: since_def)
  then have "passes_log (since m (thread_cleanup m1)) = []"
    using px passes_log_direct [OF p(2)] by simp
  with t show "passes_log (since m (snd (native_midi_player_thread q (r # rest) (w # ws) m))) = []"
    by simp
qed

text \<open>
  The claim C1 as it is stated fails when \<open>poll\<close> fails. A session with loop count -1
  that gets such a wake leaves its loop, and its thread returns, though no QUIT packet was
  read; a session with loop count 0 that gets it returns after no pass over the event list.
\<close>

theorem loop_count_semantics_counterexample:
  "loopcount (song (start_thread (Some 1) (- 1) demo_machine)) = - 1
   \<and> \<not> reads_quit fail_wake
   \<and> fst (native_midi_player_thread 0 [0] [fail_wake] (start_thread (Some 1) (- 1) demo_machine))
       = BREAK
   \<and> loopcount (song (start_thread (Some 1) 0 demo_machine)) = 0
   \<and> fst (native_midi_player_thread 0 [0] [fail_wake] (start_thread (Some 1) 0 demo_machine))
       = BREAK
   \<and> passes_log (since (start_thread (Some 1) 0 demo_machine)
        (snd (native_midi_player_thread 0 [0] [fail_wake] (start_thread (Some 1) 0 demo_machine))))
       = []"
proof -
  have r: "(0::int) \<noteq> - EAGAIN" by (simp add: EAGAIN_def)
  have f: "poll_ret fail_wake \<le> 0" by (simp add: fail_wake_def)
  have q: "\<not> reads_quit fail_wake" by (simp add: fail_wake_def send_wake_def reads_quit_def)
  have s: "loopcount (song (start_thread (Some 1) l demo_machine)) = l"
          "evtlist (song (start_thread (Some 1) l demo_machine)) \<noteq> []" for l
    by (simp_all add: start_thread_def Let_def SDL_AtomicSet_def demo_machine_def demo_song_def)
  note a = player_thread_poll_failure(1) [OF r f, of 0 "[]" "[]" "start_thread (Some 1) (- 1) demo_machine"]
  note b = player_thread_poll_failure(1) [OF r f, of 0 "[]" "[]" "start_thread (Some 1) 0 demo_machine"]
  note c = player_thread_poll_failure(2) [OF r f s(2), of 0 0 "[]" "[]"]
  from s(1) [of "- 1"] s(1) [of 0] q a b c show ?thesis by blast
qed

end
